theory Spec2Isabelle
  imports Complex_Main
begin

section \<open>JavaScript numbers\<close>

text \<open>
  The engine of \<^verbatim>\<open>src/App.tsx\<close> computes on JavaScript numbers. A finite number is
  modelled by the real it denotes (no rounding, no overflow, one zero); the three
  non-finite values of IEEE-754 are kept, since the code produces them (\<^verbatim>\<open>sma\<close> on a
  short window, a division by a zero close) and tests for them (\<^verbatim>\<open>||\<close>, comparisons).
  A decimal literal of the source denotes its decimal value.
\<close>

datatype jsnum = Num real | NaN | PInf | NInf

fun neg :: "jsnum \<Rightarrow> jsnum" where
  "neg (Num a) = Num (- a)"
| "neg NaN = NaN"
| "neg PInf = NInf"
| "neg NInf = PInf"

text \<open>The sign of a value that is not NaN: \<open>True\<close> for a negative one.\<close>

fun negative :: "jsnum \<Rightarrow> bool" where
  "negative (Num a) = (a < 0)"
| "negative NInf = True"
| "negative _ = False"

instantiation jsnum :: "{zero, one, plus, minus, times, inverse, abs, ord}"
begin

definition zero_jsnum :: jsnum where
  "zero_jsnum = Num 0"

definition one_jsnum :: jsnum where
  "one_jsnum = Num 1"

fun plus_jsnum :: "jsnum \<Rightarrow> jsnum \<Rightarrow> jsnum" where
  "Num a + Num b = Num (a + b)"
| "NaN + _ = NaN"
| "_ + NaN = NaN"
| "PInf + NInf = NaN"
| "NInf + PInf = NaN"
| "PInf + _ = PInf"
| "_ + PInf = PInf"
| "NInf + _ = NInf"
| "_ + NInf = NInf"

definition minus_jsnum :: "jsnum \<Rightarrow> jsnum \<Rightarrow> jsnum" where
  "x - y = x + neg y"

fun times_jsnum :: "jsnum \<Rightarrow> jsnum \<Rightarrow> jsnum" where
  "Num a * Num b = Num (a * b)"
| "NaN * _ = NaN"
| "_ * NaN = NaN"
| "x * y =
     (if x = Num 0 \<or> y = Num 0 then NaN
      else if negative x = negative y then PInf else NInf)"

fun divide_jsnum :: "jsnum \<Rightarrow> jsnum \<Rightarrow> jsnum" where
  "divide_jsnum (Num a) (Num b) =
     (if b \<noteq> 0 then Num (a / b)
      else if a = 0 then NaN
      else if a < 0 then NInf else PInf)"
| "divide_jsnum NaN _ = NaN"
| "divide_jsnum _ NaN = NaN"
| "divide_jsnum (Num a) _ = Num 0"
| "divide_jsnum x (Num b) = (if negative x = (b < 0) then PInf else NInf)"
| "divide_jsnum _ _ = NaN"

definition inverse_jsnum :: "jsnum \<Rightarrow> jsnum" where
  "inverse_jsnum x = divide (Num 1) x"

fun abs_jsnum :: "jsnum \<Rightarrow> jsnum" where
  "abs_jsnum (Num a) = Num \<bar>a\<bar>"
| "abs_jsnum NaN = NaN"
| "abs_jsnum _ = PInf"

fun less_jsnum :: "jsnum \<Rightarrow> jsnum \<Rightarrow> bool" where
  "Num a < Num b \<longleftrightarrow> a < b"
| "NaN < _ \<longleftrightarrow> False"
| "_ < NaN \<longleftrightarrow> False"
| "_ < NInf \<longleftrightarrow> False"
| "PInf < _ \<longleftrightarrow> False"
| "_ < PInf \<longleftrightarrow> True"
| "NInf < _ \<longleftrightarrow> True"

definition less_eq_jsnum :: "jsnum \<Rightarrow> jsnum \<Rightarrow> bool" where
  "x \<le> y \<longleftrightarrow> x < y \<or> (x = y \<and> x \<noteq> NaN)"

instance ..

end

text \<open>\<^verbatim>\<open>Math.sqrt\<close>, \<^verbatim>\<open>Math.max\<close> and \<^verbatim>\<open>Math.min\<close> of two arguments.\<close>

fun jssqrt :: "jsnum \<Rightarrow> jsnum" where
  "jssqrt (Num a) = (if a < 0 then NaN else Num (sqrt a))"
| "jssqrt PInf = PInf"
| "jssqrt _ = NaN"

definition jsmax :: "jsnum \<Rightarrow> jsnum \<Rightarrow> jsnum" where
  "jsmax x y = (if x = NaN \<or> y = NaN then NaN else if x < y then y else x)"

definition jsmin :: "jsnum \<Rightarrow> jsnum \<Rightarrow> jsnum" where
  "jsmin x y = (if x = NaN \<or> y = NaN then NaN else if y < x then y else x)"

text \<open>A number is falsy when it is zero or NaN.\<close>

fun truthy :: "jsnum \<Rightarrow> bool" where
  "truthy (Num a) = (a \<noteq> 0)"
| "truthy NaN = False"
| "truthy _ = True"

text \<open>\<^verbatim>\<open>x || d\<close> on numbers.\<close>

definition orElse :: "jsnum \<Rightarrow> jsnum \<Rightarrow> jsnum" where
  "orElse x d = (if truthy x then x else d)"

text \<open>
  An array read \<^verbatim>\<open>xs[i]\<close> yields \<^verbatim>\<open>undefined\<close> out of range. \<open>nthU\<close> is the read
  itself; \<open>nullish\<close> is \<^verbatim>\<open>v ?? d\<close>, which replaces \<^verbatim>\<open>undefined\<close> only (NaN passes); and
  \<open>nthN\<close> is a read whose value goes straight into arithmetic, where \<^verbatim>\<open>undefined\<close>
  converts to NaN.
\<close>

definition nthU :: "jsnum list \<Rightarrow> int \<Rightarrow> jsnum option" where
  "nthU xs i = (if 0 \<le> i \<and> i < int (length xs) then Some (xs ! nat i) else None)"

definition nullish :: "jsnum option \<Rightarrow> jsnum \<Rightarrow> jsnum" where
  "nullish v d = (case v of None \<Rightarrow> d | Some x \<Rightarrow> x)"

definition nthN :: "jsnum list \<Rightarrow> int \<Rightarrow> jsnum" where
  "nthN xs i = nullish (nthU xs i) NaN"

text \<open>\<^verbatim>\<open>arr.reduce((a, b) => a + b, 0)\<close>\<close>

definition sumN :: "jsnum list \<Rightarrow> jsnum" where
  "sumN xs = foldl (+) (Num 0) xs"

text \<open>\<^verbatim>\<open>arr.slice(a, b)\<close> for \<open>0 \<le> a\<close>; the end is clamped to the length.\<close>

definition slice :: "'a list \<Rightarrow> nat \<Rightarrow> nat \<Rightarrow> 'a list" where
  "slice xs a b = take (b - a) (drop a xs)"

section \<open>Feature helpers\<close>

text \<open>\<^verbatim>\<open>sma\<close>, \<^verbatim>\<open>ema\<close> and \<^verbatim>\<open>stddev\<close> of \<^verbatim>\<open>src/App.tsx\<close>, lines 75 to 96.\<close>

definition sma :: "jsnum list \<Rightarrow> nat \<Rightarrow> jsnum" where
  "sma arr period =
     (if length arr < period then NaN
      else sumN (drop (length arr - period) arr) / Num (real period))"

definition ema :: "jsnum list \<Rightarrow> nat \<Rightarrow> jsnum" where
  "ema arr period =
     (case arr of
        [] \<Rightarrow> NaN
      | a0 # rest \<Rightarrow>
          (let k = Num 2 / (Num (real period) + Num 1)
           in foldl (\<lambda>prev x. x * k + prev * (Num 1 - k)) a0 rest))"

definition stddev :: "jsnum list \<Rightarrow> jsnum" where
  "stddev arr =
     (if arr = [] then NaN
      else
        (let mean = sumN arr / Num (real (length arr));
             variance =
               foldl (\<lambda>a b. a + (b - mean) * (b - mean)) (Num 0) arr / Num (real (length arr))
         in jssqrt variance))"

section \<open>Matrix helpers\<close>

text \<open>
  A matrix is an array of rows. Reading a property of \<^verbatim>\<open>undefined\<close> throws a
  \<^verbatim>\<open>TypeError\<close>: \<^verbatim>\<open>m[0].map\<close> in \<^verbatim>\<open>transpose\<close> and \<^verbatim>\<open>B[0].length\<close> in \<^verbatim>\<open>matMul\<close> do so
  on an empty array. Nothing else in the engine can throw.
\<close>

datatype error = TypeError

type_synonym mat = "jsnum list list"

definition transposeM :: "mat \<Rightarrow> error + mat" where
  "transposeM m =
     (case m of
        [] \<Rightarrow> Inl TypeError
      | r0 # _ \<Rightarrow> Inr (map (\<lambda>i. map (\<lambda>r. nthN r (int i)) m) [0..<length r0]))"

text \<open>
  \<^verbatim>\<open>out[i][j]\<close> starts at 0 and receives \<^verbatim>\<open>A[i][k] * B[k][j]\<close> for \<open>k\<close> ascending.
\<close>

definition matMul :: "mat \<Rightarrow> mat \<Rightarrow> error + mat" where
  "matMul A B =
     (case B of
        [] \<Rightarrow> Inl TypeError
      | b0 # _ \<Rightarrow>
          Inr (map (\<lambda>row.
                 map (\<lambda>j. foldl (\<lambda>acc k. acc + nthN row (int k) * nthN (B ! k) (int j))
                             (Num 0) [0..<length B])
                     [0..<length b0])
               A))"

text \<open>
  \<^verbatim>\<open>invertMatrix\<close>, lines 108 to 126. With \<open>n\<close> the number of rows, the working copy
  \<open>A\<close> is read and written at columns below \<open>n\<close> only, and a missing entry of a short
  row reads as \<^verbatim>\<open>undefined\<close>, which each use converts to NaN: the copy is taken as
  \<open>n\<close> rows of \<open>n\<close> columns. Every step keeps that shape, so the reads below are in
  range.
\<close>

definition identityM :: "nat \<Rightarrow> mat" where
  "identityM n = map (\<lambda>i. map (\<lambda>j. if i = j then Num 1 else Num 0) [0..<n]) [0..<n]"

definition findMaxRow :: "mat \<Rightarrow> nat \<Rightarrow> nat \<Rightarrow> nat" where
  "findMaxRow A i n =
     fold (\<lambda>r maxRow. if \<bar>A ! maxRow ! i\<bar> < \<bar>A ! r ! i\<bar> then r else maxRow) [i + 1..<n] i"

definition swapRows :: "'a list list \<Rightarrow> nat \<Rightarrow> nat \<Rightarrow> 'a list list" where
  "swapRows A i j = A[i := A ! j, j := A ! i]"

definition scaleRow :: "mat \<Rightarrow> nat \<Rightarrow> jsnum \<Rightarrow> mat" where
  "scaleRow A i pivot = A[i := map (\<lambda>x. x / pivot) (A ! i)]"

text \<open>
  The elimination of column \<open>i\<close>: row \<open>r \<noteq> i\<close> of \<open>M\<close> loses \<open>factor\<close> times row \<open>i\<close> of
  \<open>M\<close>, where \<open>factor\<close> is \<open>A[r][i]\<close> read before the row changes. The code runs it on
  \<open>A\<close> and on \<open>I\<close> in the same loop.
\<close>

definition eliminate :: "nat \<Rightarrow> nat \<Rightarrow> mat \<Rightarrow> mat \<Rightarrow> mat" where
  "eliminate n i A M =
     map (\<lambda>r. if r = i then M ! r
               else map (\<lambda>c. M ! r ! c - (A ! r ! i) * (M ! i ! c)) [0..<n])
         [0..<n]"

function invertLoop :: "nat \<Rightarrow> nat \<Rightarrow> mat \<Rightarrow> mat \<Rightarrow> mat option" where
  "invertLoop n i A I =
     (if i < n then
        (let maxRow = findMaxRow A i n;
             A1 = swapRows A i maxRow;
             I1 = swapRows I i maxRow;
             pivot = A1 ! i ! i
         in if \<bar>pivot\<bar> < Num (1 / 10 ^ 12) then None
            else
              (let A2 = scaleRow A1 i pivot;
                   I2 = scaleRow I1 i pivot
               in invertLoop n (i + 1) (eliminate n i A2 A2) (eliminate n i A2 I2)))
      else Some I)"
  by pat_completeness auto
termination
  by (relation "measure (\<lambda>(n, i, A, I). n - i)") auto

definition invertMatrix :: "mat \<Rightarrow> mat option" where
  "invertMatrix m =
     (let n = length m;
          A = map (\<lambda>row. map (\<lambda>c. nthN row (int c)) [0..<n]) m
      in invertLoop n 0 A (identityM n))"

text \<open>
  \<^verbatim>\<open>linearRidge\<close>, lines 128 to 139: \<open>Inr None\<close> is the \<^verbatim>\<open>null\<close> it returns when the
  inversion does. \<^verbatim>\<open>XtX\<close> has as many rows as columns, so \<^verbatim>\<open>XtX[i][i]\<close> exists.
\<close>

definition addRidge :: "mat \<Rightarrow> jsnum \<Rightarrow> mat" where
  "addRidge XtX lambda = map (\<lambda>i. (XtX ! i)[i := XtX ! i ! i + lambda]) [0..<length XtX]"

definition linearRidge :: "mat \<Rightarrow> jsnum list \<Rightarrow> jsnum \<Rightarrow> error + jsnum list option" where
  "linearRidge X y lambda =
     (case transposeM X of
        Inl e \<Rightarrow> Inl e
      | Inr Xt \<Rightarrow>
          (case matMul Xt X of
             Inl e \<Rightarrow> Inl e
           | Inr XtX \<Rightarrow>
               (case invertMatrix (addRidge XtX lambda) of
                  None \<Rightarrow> Inr None
                | Some XtXinv \<Rightarrow>
                    (case matMul Xt (map (\<lambda>v. [v]) y) of
                       Inl e \<Rightarrow> Inl e
                     | Inr Xty \<Rightarrow>
                         (case matMul XtXinv Xty of
                            Inl e \<Rightarrow> Inl e
                          | Inr betaMat \<Rightarrow> Inr (Some (map (\<lambda>r. nthN r 0) betaMat)))))))"

section \<open>The fallback predictor\<close>

record simple =
  nextPrice :: jsnum
  projectionLine :: "jsnum list"

record forecast = simple +
  confidence :: jsnum

record candle =
  date :: string
  close :: jsnum
  volume :: jsnum

text \<open>
  The percent returns of a series, as both \<^verbatim>\<open>predict\<close> (line 385) and
  \<^verbatim>\<open>improvedPredict\<close> (line 151) compute them, for \<open>i\<close> from 1 below the length.
\<close>

definition pctReturn :: "jsnum \<Rightarrow> jsnum \<Rightarrow> jsnum" where
  "pctReturn prev cur = ((cur - prev) / prev) * Num 100"

definition pctReturns :: "jsnum list \<Rightarrow> jsnum list" where
  "pctReturns values =
     map (\<lambda>i. pctReturn (nthN values (int i - 1)) (nthN values (int i))) [1..<length values]"

text \<open>
  \<^verbatim>\<open>predict\<close>, lines 380 to 393. The projection starts as \<^verbatim>\<open>[last]\<close> and step \<open>i\<close>
  pushes \<^verbatim>\<open>projection[i] * (1 + avg / 100)\<close>.
\<close>

definition compound :: "jsnum \<Rightarrow> jsnum list \<Rightarrow> nat \<Rightarrow> jsnum list" where
  "compound avg projection i = projection @ [nthN projection (int i) * (Num 1 + avg / Num 100)]"

definition predict :: "jsnum list \<Rightarrow> simple" where
  "predict values =
     (if length values < 2 then
        \<lparr>nextPrice = nullish (nthU values (int (length values) - 1)) (Num 0),
         projectionLine = []\<rparr>
      else
        (let last = nthN values (int (length values) - 1);
             pct = pctReturns values;
             avg = (if length pct \<noteq> 0 then sumN pct / Num (real (length pct)) else Num 0);
             projection = fold (\<lambda>i p. compound avg p i) [0..<5] [last]
         in \<lparr>nextPrice = nthN projection (int (length projection) - 1),
             projectionLine = drop 1 projection\<rparr>))"

text \<open>\<^verbatim>\<open>{ ...simple, confidence: c }\<close>\<close>

definition withConfidence :: "simple \<Rightarrow> jsnum \<Rightarrow> forecast" where
  "withConfidence s c = simple.extend s (forecast.fields c)"

section \<open>The regression engine\<close>

text \<open>
  The four feature vectors of \<^verbatim>\<open>improvedPredict\<close>. \<^verbatim>\<open>sma\<close>, \<^verbatim>\<open>ema\<close> and \<^verbatim>\<open>stddev\<close>
  return a number, never \<^verbatim>\<open>undefined\<close>, so \<^verbatim>\<open>?? 0\<close> after them changes nothing (a NaN
  stays), while \<^verbatim>\<open>|| 0\<close> replaces NaN by 0. \<^verbatim>\<open>Math.max(0, i - 19)\<close> is the truncating
  subtraction of naturals.
\<close>

definition momentum :: "jsnum list \<Rightarrow> jsnum" where
  "momentum w = orElse (nthN w (int (length w) - 1) - orElse (sma w 20) (Num 0)) (Num 0)"

text \<open>Lines 156 to 168: the row of the full-sample fit at cutoff \<open>i\<close>.\<close>

definition featureRow :: "jsnum list \<Rightarrow> jsnum list \<Rightarrow> nat \<Rightarrow> jsnum list" where
  "featureRow closes returns i =
     (let windowCloses = slice closes 0 (i + 1);
          r = nthU returns (int i - 1)
      in [Num 1,
          nullish r (Num 0),
          sma windowCloses 5,
          sma windowCloses 20,
          ema windowCloses 12,
          ema windowCloses 26,
          stddev (slice returns (i - 19) i),
          momentum windowCloses])"

text \<open>Lines 195 to 212: a training row of the backtest at cutoff \<open>i\<close>, and its target.\<close>

definition trainRow :: "jsnum list \<Rightarrow> nat \<Rightarrow> jsnum list" where
  "trainRow closes i =
     (let windowCloses = slice closes 0 (i + 1);
          r = pctReturn (nthN closes (int i - 1)) (nthN closes (int i))
      in [Num 1,
          r,
          orElse (sma windowCloses 5) (Num 0),
          orElse (sma windowCloses 20) (Num 0),
          orElse (ema windowCloses 12) (Num 0),
          orElse (ema windowCloses 26) (Num 0),
          orElse (stddev (map (\<lambda>_. Num 0) (slice closes (i - 19) i))) (Num 0),
          momentum windowCloses])"

definition trainTarget :: "jsnum list \<Rightarrow> nat \<Rightarrow> jsnum" where
  "trainTarget closes i = pctReturn (nthN closes (int i)) (nthN closes (int i + 1))"

text \<open>Lines 218 to 229: the row the backtest predicts from, at the split.\<close>

definition splitRow :: "jsnum list \<Rightarrow> nat \<Rightarrow> jsnum list" where
  "splitRow closes split =
     (let windowCloses = slice closes 0 (split + 1);
          lastRet = pctReturn (nthN windowCloses (int (length windowCloses) - 2))
                              (nthN windowCloses (int (length windowCloses) - 1))
      in [Num 1,
          orElse lastRet (Num 0),
          orElse (sma windowCloses 5) (Num 0),
          orElse (sma windowCloses 20) (Num 0),
          orElse (ema windowCloses 12) (Num 0),
          orElse (ema windowCloses 26) (Num 0),
          orElse (stddev (slice closes (split - 19) split)) (Num 0),
          momentum windowCloses])"

text \<open>Lines 252 to 261: the row of a rollout step.\<close>

definition liveRow :: "jsnum list \<Rightarrow> jsnum list \<Rightarrow> jsnum list" where
  "liveRow lastCloses lastReturns =
     [Num 1,
      nullish (nthU lastReturns (int (length lastReturns) - 1)) (Num 0),
      sma lastCloses 5,
      sma lastCloses 20,
      ema lastCloses 12,
      ema lastCloses 26,
      stddev (drop (length lastReturns - 20) lastReturns),
      momentum lastCloses]"

text \<open>\<^verbatim>\<open>f.reduce((acc, v, j) => acc + v * beta[j], 0)\<close>\<close>

definition dot :: "jsnum list \<Rightarrow> jsnum list \<Rightarrow> jsnum" where
  "dot f beta = foldl (\<lambda>acc j. acc + (f ! j) * nthN beta (int j)) (Num 0) [0..<length f]"

text \<open>Lines 154 to 171: the rows and targets of the full-sample fit.\<close>

definition cutoffs :: "jsnum list \<Rightarrow> nat list" where
  "cutoffs closes = [20..<length closes - 1]"

definition fullFeatures :: "jsnum list \<Rightarrow> mat" where
  "fullFeatures closes = map (featureRow closes (pctReturns closes)) (cutoffs closes)"

definition fullTargets :: "jsnum list \<Rightarrow> jsnum list" where
  "fullTargets closes = map (\<lambda>i. nthN (pctReturns closes) (int i)) (cutoffs closes)"

text \<open>Lines 181 to 185: the in-sample coefficient of determination.\<close>

definition rSquared :: "mat \<Rightarrow> jsnum list \<Rightarrow> jsnum list \<Rightarrow> jsnum" where
  "rSquared features targets beta =
     (let preds = map (\<lambda>f. dot f beta) features;
          meanT = sumN targets / Num (real (length targets));
          ssRes = foldl (\<lambda>a i. a + (targets ! i - nthN preds (int i))
                                  * (targets ! i - nthN preds (int i)))
                        (Num 0) [0..<length targets];
          ssTot = foldl (\<lambda>a b. a + (b - meanT) * (b - meanT)) (Num 0) targets
      in Num 1 - ssRes / orElse ssTot (Num 1))"

text \<open>
  Lines 192 to 235: the body of the walk-forward loop at one split. It yields the
  errors it pushes: none after a \<^verbatim>\<open>continue\<close> or a failed price test, one otherwise.
\<close>

definition splitError :: "jsnum list \<Rightarrow> nat \<Rightarrow> error + jsnum list" where
  "splitError closes split =
     (let trFeatures = map (trainRow closes) [20..<split];
          trTargets = map (trainTarget closes) [20..<split]
      in if length trFeatures < 5 then Inr []
         else
           (case linearRidge trFeatures trTargets (Num (1 / 100)) of
              Inl e \<Rightarrow> Inl e
            | Inr None \<Rightarrow> Inr []
            | Inr (Some betaT) \<Rightarrow>
                (let fNext = splitRow closes split;
                     predRet = dot fNext betaT;
                     predictedPrice = nthN closes (int split) * (Num 1 + predRet / Num 100);
                     actualPrice = nthN closes (int split + 1)
                 in if truthy actualPrice \<and> Num 0 < actualPrice
                    then Inr [\<bar>(predictedPrice - actualPrice) / actualPrice\<bar>]
                    else Inr [])))"

text \<open>Lines 191 and 236: \<^verbatim>\<open>for (let split = 30; split < n - 1; split += step)\<close>.\<close>

function backtestLoop :: "jsnum list \<Rightarrow> nat \<Rightarrow> jsnum list \<Rightarrow> error + jsnum list" where
  "backtestLoop closes split errors =
     (if split < length closes - 1 then
        (case splitError closes split of
           Inl e \<Rightarrow> Inl e
         | Inr es \<Rightarrow> backtestLoop closes (split + 3) (errors @ es))
      else Inr errors)"
  by pat_completeness auto
termination
  by (relation "measure (\<lambda>(closes, split, errors). length closes - 1 - split)") auto

text \<open>Lines 238 to 245.\<close>

definition backtestConf :: "jsnum list \<Rightarrow> jsnum" where
  "backtestConf errors =
     (if 0 < length errors then
        (let mape = sumN errors / Num (real (length errors));
             threshold = Num (1 / 10)
         in jsmax (Num 0) (Num 1 - jsmin (Num 1) (mape / threshold)))
      else Num 0)"

definition finalConf :: "jsnum \<Rightarrow> jsnum \<Rightarrow> jsnum" where
  "finalConf bc r2 =
     jsmax (Num 0)
       (jsmin (Num 1) (Num (8 / 10) * bc + Num (2 / 10) * jsmax (Num 0) (jsmin (Num 1) r2)))"

text \<open>
  Lines 248 to 269: the rollout. The state is \<^verbatim>\<open>lastCloses\<close>, \<^verbatim>\<open>lastReturns\<close> and
  \<^verbatim>\<open>projection\<close>; \<open>rolloutStep\<close> is the loop body.
\<close>

type_synonym rollout = "jsnum list \<times> jsnum list \<times> jsnum list"

definition rolloutStep :: "jsnum list \<Rightarrow> rollout \<Rightarrow> rollout" where
  "rolloutStep beta st =
     (case st of (lastCloses, lastReturns, projection) \<Rightarrow>
        (let fNext = liveRow lastCloses lastReturns;
             predReturn = dot fNext beta;
             nextPrice = nthN lastCloses (int (length lastCloses) - 1)
                         * (Num 1 + predReturn / Num 100)
         in (lastCloses @ [nextPrice], lastReturns @ [predReturn], projection @ [nextPrice])))"

function rolloutLoop :: "jsnum list \<Rightarrow> nat \<Rightarrow> rollout \<Rightarrow> rollout" where
  "rolloutLoop beta step st =
     (if step < 5 then rolloutLoop beta (step + 1) (rolloutStep beta st) else st)"
  by pat_completeness auto
termination
  by (relation "measure (\<lambda>(beta, step, st). 5 - step)") auto

text \<open>
  What \<^verbatim>\<open>improvedPredict\<close> does once the full-sample fit has given \<open>beta\<close>, lines 180
  to 271.
\<close>

definition regression :: "jsnum list \<Rightarrow> jsnum list \<Rightarrow> error + forecast" where
  "regression closes beta =
     (let r2 = rSquared (fullFeatures closes) (fullTargets closes) beta
      in case backtestLoop closes 30 [] of
           Inl e \<Rightarrow> Inl e
         | Inr errors \<Rightarrow>
             (case rolloutLoop beta 0 (closes, pctReturns closes, []) of
                (lastCloses, lastReturns, projection) \<Rightarrow>
                  Inr \<lparr>nextPrice = nthN projection (int (length projection) - 1),
                       projectionLine = projection,
                       confidence = finalConf (backtestConf errors) r2\<rparr>))"

text \<open>
  Lines 173 to 178 and after: what \<^verbatim>\<open>improvedPredict\<close> does with the outcome of the
  full-sample fit. A throw propagates, \<^verbatim>\<open>null\<close> goes to the fallback with confidence
  0.1, coefficients go on to \<open>regression\<close>.
\<close>

definition afterFit :: "jsnum list \<Rightarrow> error + jsnum list option \<Rightarrow> error + forecast" where
  "afterFit closes fit =
     (case fit of
        Inl e \<Rightarrow> Inl e
      | Inr None \<Rightarrow> Inr (withConfidence (predict closes) (Num (1 / 10)))
      | Inr (Some beta) \<Rightarrow> regression closes beta)"

text \<open>\<^verbatim>\<open>improvedPredict\<close>, lines 141 to 272.\<close>

definition improvedPredict :: "candle list \<Rightarrow> error + forecast" where
  "improvedPredict candles =
     (let closes = map close candles
      in if length candles < 30 then Inr (withConfidence (predict closes) (Num (2 / 10)))
         else afterFit closes
                (linearRidge (fullFeatures closes) (fullTargets closes) (Num (1 / 100))))"

text \<open>
  Lines 141 to 272 with the call of line 172 as a parameter: \<open>solve\<close> stands for
  \<^verbatim>\<open>linearRidge\<close> in \<^verbatim>\<open>const beta = linearRidge(features, targets, 1e-2)\<close>, every other
  line is as in \<open>improvedPredict\<close>, which is the instance at \<open>linearRidge\<close>. Whether
  that call returns \<^verbatim>\<open>null\<close> is decided by the rounding of the doubles in the
  elimination; the parameter lets each outcome of the call be followed through the
  rest of the function.
\<close>

definition improvedPredictWith ::
    "(mat \<Rightarrow> jsnum list \<Rightarrow> jsnum \<Rightarrow> error + jsnum list option) \<Rightarrow> candle list
       \<Rightarrow> error + forecast" where
  "improvedPredictWith solve candles =
     (let closes = map close candles
      in if length candles < 30 then Inr (withConfidence (predict closes) (Num (2 / 10)))
         else afterFit closes (solve (fullFeatures closes) (fullTargets closes) (Num (1 / 100))))"

section \<open>Finite values and exact arithmetic\<close>

text \<open>A value is finite when it is neither NaN nor an infinity.\<close>

definition fin :: "jsnum \<Rightarrow> bool" where
  "fin x = (case x of Num _ \<Rightarrow> True | _ \<Rightarrow> False)"

text \<open>
  The population standard deviation of a list of reals, as the specification's data
  model names the volatility: the square root of the mean squared deviation from the
  mean.
\<close>

definition meanR :: "real list \<Rightarrow> real" where
  "meanR xs = sum_list xs / real (length xs)"

definition populationStddev :: "real list \<Rightarrow> real" where
  "populationStddev xs = sqrt (sum_list (map (\<lambda>x. (x - meanR xs) * (x - meanR xs)) xs) / real (length xs))"

text \<open>
  The matrix steps once more, on matrices of reals: what \<^verbatim>\<open>invertMatrix\<close> and
  \<^verbatim>\<open>matMul\<close> compute in exact arithmetic when every entry is finite. \<open>lift\<close> embeds
  such a matrix into the matrices of the engine.
\<close>

type_synonym rmat = "real list list"

definition lift :: "rmat \<Rightarrow> mat" where
  "lift A = map (map Num) A"

definition findMaxRowR :: "rmat \<Rightarrow> nat \<Rightarrow> nat \<Rightarrow> nat" where
  "findMaxRowR A i n =
     fold (\<lambda>r maxRow. if \<bar>A ! maxRow ! i\<bar> < \<bar>A ! r ! i\<bar> then r else maxRow) [i + 1..<n] i"

definition scaleRowR :: "rmat \<Rightarrow> nat \<Rightarrow> real \<Rightarrow> rmat" where
  "scaleRowR A i pivot = A[i := map (\<lambda>x. x / pivot) (A ! i)]"

definition eliminateR :: "nat \<Rightarrow> nat \<Rightarrow> rmat \<Rightarrow> rmat \<Rightarrow> rmat" where
  "eliminateR n i A M =
     map (\<lambda>r. if r = i then M ! r
               else map (\<lambda>c. M ! r ! c - (A ! r ! i) * (M ! i ! c)) [0..<n])
         [0..<n]"

function invertLoopR :: "nat \<Rightarrow> nat \<Rightarrow> rmat \<Rightarrow> rmat \<Rightarrow> rmat option" where
  "invertLoopR n i A I =
     (if i < n then
        (let maxRow = findMaxRowR A i n;
             A1 = swapRows A i maxRow;
             I1 = swapRows I i maxRow;
             pivot = A1 ! i ! i
         in if \<bar>pivot\<bar> < 1 / 10 ^ 12 then None
            else
              (let A2 = scaleRowR A1 i pivot;
                   I2 = scaleRowR I1 i pivot
               in invertLoopR n (i + 1) (eliminateR n i A2 A2) (eliminateR n i A2 I2)))
      else Some I)"
  by pat_completeness auto
termination
  by (relation "measure (\<lambda>(n, i, A, I). n - i)") auto

definition identityR :: "nat \<Rightarrow> rmat" where
  "identityR n = map (\<lambda>i. map (\<lambda>j. if i = j then 1 else 0) [0..<n]) [0..<n]"

definition matMulR :: "rmat \<Rightarrow> rmat \<Rightarrow> rmat" where
  "matMulR A B =
     map (\<lambda>row. map (\<lambda>j. \<Sum>k < length B. row ! k * B ! k ! j) [0..<length (hd B)]) A"

definition transposeR :: "rmat \<Rightarrow> rmat" where
  "transposeR X = map (\<lambda>i. map (\<lambda>r. r ! i) X) [0..<length (hd X)]"

definition addRidgeR :: "rmat \<Rightarrow> real \<Rightarrow> rmat" where
  "addRidgeR XtX lambda = map (\<lambda>i. (XtX ! i)[i := XtX ! i ! i + lambda]) [0..<length XtX]"

definition linearRidgeR :: "rmat \<Rightarrow> real list \<Rightarrow> real \<Rightarrow> real list option" where
  "linearRidgeR X y lambda =
     (let Xt = transposeR X;
          XtX = matMulR Xt X
      in case invertLoopR (length XtX) 0 (addRidgeR XtX lambda) (identityR (length XtX)) of
           None \<Rightarrow> None
         | Some XtXinv \<Rightarrow>
             Some (map (\<lambda>r. r ! 0) (matMulR XtXinv (matMulR Xt (map (\<lambda>v. [v]) y)))))"

text \<open>
  The ridge normal equations of the specification, \<open>(X\<^sup>t X + \<lambda> I) beta = X\<^sup>t y\<close>: the
  entry \<open>(i, j)\<close> of their matrix and the entry \<open>i\<close> of their right-hand side.
\<close>

definition ridgeMatrix :: "rmat \<Rightarrow> real \<Rightarrow> nat \<Rightarrow> nat \<Rightarrow> real" where
  "ridgeMatrix X lambda i j =
     (\<Sum>k < length X. X ! k ! i * X ! k ! j) + (if i = j then lambda else 0)"

definition ridgeRhs :: "rmat \<Rightarrow> real list \<Rightarrow> nat \<Rightarrow> real" where
  "ridgeRhs X y i = (\<Sum>k < length X. X ! k ! i * y ! k)"

text \<open>A matrix of \<open>n\<close> rows and \<open>p\<close> columns; \<open>wfR n\<close> is a square one.\<close>

definition shapeR :: "nat \<Rightarrow> nat \<Rightarrow> rmat \<Rightarrow> bool" where
  "shapeR n p A \<longleftrightarrow> length A = n \<and> (\<forall>r < n. length (A ! r) = p)"

definition wfR :: "nat \<Rightarrow> rmat \<Rightarrow> bool" where
  "wfR n A \<longleftrightarrow> length A = n \<and> (\<forall>r < n. length (A ! r) = n)"

text \<open>
  \<open>sol n A I x y\<close>: the vectors \<open>x\<close> and \<open>y\<close> satisfy the linear system \<open>A x = I y\<close>.
  \<open>unitCols n k A\<close>: the first \<open>k\<close> columns of \<open>A\<close> are those of the identity.
\<close>

definition sol :: "nat \<Rightarrow> rmat \<Rightarrow> rmat \<Rightarrow> (nat \<Rightarrow> real) \<Rightarrow> (nat \<Rightarrow> real) \<Rightarrow> bool" where
  "sol n A I x y \<longleftrightarrow> (\<forall>r < n. (\<Sum>c < n. A ! r ! c * x c) = (\<Sum>c < n. I ! r ! c * y c))"

definition unitCols :: "nat \<Rightarrow> nat \<Rightarrow> rmat \<Rightarrow> bool" where
  "unitCols n k A \<longleftrightarrow> (\<forall>r < n. \<forall>c < k. A ! r ! c = (if r = c then 1 else 0))"

text \<open>
  A history used where a property is shown at a concrete input: 32 closes that
  alternate between 100 and 110.
\<close>

definition exampleReals :: "real list" where
  "exampleReals =
     [100, 110, 100, 110, 100, 110, 100, 110, 100, 110,
      100, 110, 100, 110, 100, 110, 100, 110, 100, 110,
      100, 110, 100, 110, 100, 110, 100, 110, 100, 110, 100, 110]"

definition exampleCloses :: "jsnum list" where
  "exampleCloses = map Num exampleReals"

definition exampleCandles :: "candle list" where
  "exampleCandles = map (\<lambda>x. \<lparr>date = ''2024-01-02'', close = x, volume = Num 1000\<rparr>) exampleCloses"

text \<open>
  The fallback predictor in the words of its description: the mean percent change
  over the whole close sequence, compounded five times from the last close.
\<close>

definition meanPctChange :: "real list \<Rightarrow> real" where
  "meanPctChange vs =
     (\<Sum>i<length vs - 1. (vs ! (i + 1) - vs ! i) / vs ! i * 100) / real (length vs - 1)"

definition fallbackPath :: "real list \<Rightarrow> real list" where
  "fallbackPath vs =
     (let g = 1 + meanPctChange vs / 100;
          p1 = last vs * g; p2 = p1 * g; p3 = p2 * g; p4 = p3 * g; p5 = p4 * g
      in [p1, p2, p3, p4, p5])"

text \<open>
  The feature vector and the rollout in the words of their description, on real
  numbers: the mean of the last \<open>k\<close> closes; the exponential moving average seeded
  with the first close, with factor \<open>2 / (k + 1)\<close>, run over the whole series; the
  vector \<open>[1, lastReturn, sma5, sma20, ema12, ema26, volatility, momentum]\<close>; and the
  step that appends \<open>lastClose * (1 + dot(feature, beta) / 100)\<close> to the closes and to
  the projection, and \<open>dot(feature, beta)\<close> to the returns.
\<close>

definition smaR :: "real list \<Rightarrow> nat \<Rightarrow> real" where
  "smaR cs k = sum_list (drop (length cs - k) cs) / real k"

definition emaR :: "real list \<Rightarrow> nat \<Rightarrow> real" where
  "emaR cs k =
     foldl (\<lambda>prev c. c * (2 / (real k + 1)) + prev * (1 - 2 / (real k + 1))) (hd cs) (tl cs)"

definition featureVector :: "real list \<Rightarrow> real list \<Rightarrow> real list" where
  "featureVector cs rs =
     [1, last rs, smaR cs 5, smaR cs 20, emaR cs 12, emaR cs 26,
      populationStddev (drop (length rs - 20) rs), last cs - smaR cs 20]"

definition rolloutSpec ::
    "real list \<Rightarrow> real list \<times> real list \<times> real list
       \<Rightarrow> real list \<times> real list \<times> real list" where
  "rolloutSpec b st =
     (case st of (cs, rs, proj) \<Rightarrow>
        (let predictedReturn = (\<Sum>j<8. featureVector cs rs ! j * b ! j);
             nextPrice = last cs * (1 + predictedReturn / 100)
         in (cs @ [nextPrice], rs @ [predictedReturn], proj @ [nextPrice])))"

definition liftRollout :: "real list \<times> real list \<times> real list \<Rightarrow> rollout" where
  "liftRollout st = (case st of (cs, rs, proj) \<Rightarrow> (map Num cs, map Num rs, map Num proj))"

text \<open>
  More histories for concrete inputs, of 30 closes each: all at 100 (with its 29
  percent returns), all at 10000000, all at 0 (with the 29 returns and the row of
  the full-sample fit that the engine computes from it); and two coefficient vectors
  for the rollout.
\<close>

definition candlesOf :: "real list \<Rightarrow> candle list" where
  "candlesOf cs = map (\<lambda>x. \<lparr>date = ''2024-01-02'', close = Num x, volume = Num 1000\<rparr>) cs"

definition flatReals :: "real list" where
  "flatReals =
     [100, 100, 100, 100, 100, 100, 100, 100, 100, 100,
      100, 100, 100, 100, 100, 100, 100, 100, 100, 100,
      100, 100, 100, 100, 100, 100, 100, 100, 100, 100]"

definition flatReturns :: "real list" where
  "flatReturns =
     [0, 0, 0, 0, 0, 0, 0, 0, 0, 0, 0, 0, 0, 0, 0, 0, 0, 0, 0, 0,
      0, 0, 0, 0, 0, 0, 0, 0, 0]"

definition largeReals :: "real list" where
  "largeReals =
     [10000000, 10000000, 10000000, 10000000, 10000000, 10000000, 10000000, 10000000,
      10000000, 10000000, 10000000, 10000000, 10000000, 10000000, 10000000, 10000000,
      10000000, 10000000, 10000000, 10000000, 10000000, 10000000, 10000000, 10000000,
      10000000, 10000000, 10000000, 10000000, 10000000, 10000000]"

definition zeroReals :: "real list" where
  "zeroReals =
     [0, 0, 0, 0, 0, 0, 0, 0, 0, 0, 0, 0, 0, 0, 0, 0, 0, 0, 0, 0,
      0, 0, 0, 0, 0, 0, 0, 0, 0, 0]"

definition nanReturns :: "jsnum list" where
  "nanReturns =
     [NaN, NaN, NaN, NaN, NaN, NaN, NaN, NaN, NaN, NaN, NaN, NaN, NaN, NaN, NaN, NaN, NaN, NaN,
      NaN, NaN, NaN, NaN, NaN, NaN, NaN, NaN, NaN, NaN, NaN]"

definition nanRow :: "jsnum list" where
  "nanRow = [Num 1, NaN, Num 0, Num 0, Num 0, Num 0, NaN, Num 0]"

definition exampleBeta :: "real list" where
  "exampleBeta = [1 / 2, 1 / 10, 1 / 100, 1 / 100, - 1 / 100, - 1 / 100, 0, 1 / 10]"

definition trendBeta :: "real list" where
  "trendBeta = [1, 1 / 2, 0, 0, 0, 0, 0, 0]"

declare rolloutLoop.simps [simp del]

declare backtestLoop.simps [simp del]

declare invertLoop.simps [simp del]

declare invertLoopR.simps [simp del]

section \<open>Reads, records and the short-history path\<close>

lemma nthU_int: "nthU xs (int i) = (if i < length xs then Some (xs ! i) else None)"
  by (simp add: nthU_def)

lemma nthN_int: "nthN xs (int i) = (if i < length xs then xs ! i else NaN)"
  by (simp add: nthN_def nthU_def nullish_def)

lemma withConfidence_eq:
  "withConfidence s c =
     \<lparr>nextPrice = nextPrice s, projectionLine = projectionLine s, confidence = c\<rparr>"
  by (simp add: withConfidence_def simple.defs forecast.defs)

lemma predict_nil: "predict [] = \<lparr>nextPrice = Num 0, projectionLine = []\<rparr>"
  by (simp add: predict_def nthU_def nullish_def)

lemma predict_single: "predict [v] = \<lparr>nextPrice = v, projectionLine = []\<rparr>"
  by (simp add: predict_def nthU_def nullish_def)

section \<open>The engine never throws\<close>

lemma transposeM_Inr:
  "X \<noteq> [] \<Longrightarrow>
   transposeM X = Inr (map (\<lambda>i. map (\<lambda>r. nthN r (int i)) X) [0..<length (hd X)])"
  by (cases X) (simp_all add: transposeM_def)

lemma matMul_Inr: "B \<noteq> [] \<Longrightarrow> \<exists>C. matMul A B = Inr C \<and> length C = length A"
  by (cases B) (simp_all add: matMul_def)

lemma linearRidge_no_throw:
  assumes "X \<noteq> []" "hd X \<noteq> []" "y \<noteq> []"
  shows "\<exists>r. linearRidge X y lambda = Inr r"
proof -
  obtain Xt where Xt: "transposeM X = Inr Xt" "Xt \<noteq> []"
    using assms by (simp add: transposeM_Inr)
  obtain XtX where XtX: "matMul Xt X = Inr XtX"
    using matMul_Inr[OF assms(1)] by blast
  have "map (\<lambda>v. [v]) y \<noteq> []" using assms by simp
  then obtain Xty where Xty: "matMul Xt (map (\<lambda>v. [v]) y) = Inr Xty" "length Xty = length Xt"
    using matMul_Inr by blast
  then have "Xty \<noteq> []" using Xt by auto
  then have "\<And>Z e. matMul Z Xty \<noteq> Inl e"
    using matMul_Inr by (metis sum.distinct(1))
  then show ?thesis
    using Xt XtX Xty by (auto simp: linearRidge_def split: option.splits sum.splits)
qed

lemma splitError_no_throw: "\<exists>es. splitError closes split = Inr es"
proof (cases "length (map (trainRow closes) [20..<split]) < 5")
  case True
  then show ?thesis by (simp add: splitError_def)
next
  case False
  then have ne: "[20..<split] \<noteq> []" by auto
  then have "map (trainRow closes) [20..<split] \<noteq> []"
    and "map (trainTarget closes) [20..<split] \<noteq> []"
    by simp_all
  moreover have "hd (map (trainRow closes) [20..<split]) \<noteq> []"
    using ne by (simp add: hd_map trainRow_def Let_def)
  ultimately obtain r where
    "linearRidge (map (trainRow closes) [20..<split]) (map (trainTarget closes) [20..<split])
       (Num (1 / 100)) = Inr r"
    using linearRidge_no_throw by blast
  then show ?thesis
    by (auto simp: splitError_def Let_def split: option.splits)
qed

lemma backtestLoop_no_throw: "\<exists>es. backtestLoop closes split errors = Inr es"
proof (induction closes split errors rule: backtestLoop.induct)
  case (1 closes split errors)
  show ?case
  proof (cases "split < length closes - 1")
    case True
    obtain es where es: "splitError closes split = Inr es"
      using splitError_no_throw by blast
    with True "1.IH"[OF True es] show ?thesis
      by (subst backtestLoop.simps) simp
  next
    case False
    then show ?thesis by (subst backtestLoop.simps) simp
  qed
qed

lemma regression_no_throw: "\<exists>r. regression closes beta = Inr r"
proof -
  obtain es where "backtestLoop closes 30 [] = Inr es"
    using backtestLoop_no_throw by blast
  then show ?thesis
    by (simp add: regression_def Let_def split: prod.splits)
qed

lemma improvedPredict_no_throw: "\<exists>r. improvedPredict candles = Inr r"
proof (cases "length candles < 30")
  case True
  then show ?thesis by (simp add: improvedPredict_def)
next
  case False
  let ?closes = "map close candles"
  have ne: "cutoffs ?closes \<noteq> []" using False by (simp add: cutoffs_def)
  then have "fullFeatures ?closes \<noteq> []" "fullTargets ?closes \<noteq> []"
    by (simp_all add: fullFeatures_def fullTargets_def)
  moreover have "hd (fullFeatures ?closes) \<noteq> []"
    using ne by (simp add: fullFeatures_def hd_map featureRow_def Let_def)
  ultimately obtain r where
    "linearRidge (fullFeatures ?closes) (fullTargets ?closes) (Num (1 / 100)) = Inr r"
    using linearRidge_no_throw by blast
  then show ?thesis
    using False regression_no_throw[of ?closes]
    by (cases r) (simp_all add: improvedPredict_def afterFit_def Let_def)
qed

section \<open>Histories of fewer than two candles\<close>

text \<open>
  Claim C1, as the specification states it: for a history of fewer than 2 candles the
  orchestrator refuses to produce a forecast, the request failing as InvalidInput. The
  code does not: the guard of \<^verbatim>\<open>predict\<close> (line 381) returns a result with an empty
  projection, and \<^verbatim>\<open>improvedPredict\<close> adds the confidence 0.2 to it. At a history
  of one candle closing at 100 the engine returns a forecast.
\<close>

theorem C1_one_candle_returns_forecast:
  "improvedPredict [\<lparr>date = ''2024-01-02'', close = Num 100, volume = Num 1000\<rparr>]
     = Inr \<lparr>nextPrice = Num 100, projectionLine = [], confidence = Num (2 / 10)\<rparr>"
  by (simp add: improvedPredict_def withConfidence_eq predict_single)

text \<open>
  Claim C1, amended: for a history of fewer than 2 candles the engine returns, without
  failing, the forecast whose projection is empty, whose confidence is 0.2 and whose
  next price is the close of the only candle, or 0 when there is none.
\<close>

theorem C1_short_history_forecast:
  "length candles < 2 \<Longrightarrow>
   improvedPredict candles =
     Inr \<lparr>nextPrice = (case candles of [] \<Rightarrow> Num 0 | c # _ \<Rightarrow> close c),
          projectionLine = [],
          confidence = Num (2 / 10)\<rparr>"
proof (cases candles)
  case Nil
  then show ?thesis
    by (simp add: improvedPredict_def withConfidence_eq predict_nil)
next
  case (Cons c cs)
  assume "length candles < 2"
  with Cons have "cs = []" by simp
  with Cons show ?thesis
    by (simp add: improvedPredict_def withConfidence_eq predict_single)
qed

theorem C1_short_history_forecast_witness:
  "length [\<lparr>date = ''2024-01-02'', close = Num 250, volume = Num 10\<rparr>] < 2 \<and>
   improvedPredict [\<lparr>date = ''2024-01-02'', close = Num 250, volume = Num 10\<rparr>]
     = Inr \<lparr>nextPrice = Num 250, projectionLine = [], confidence = Num (2 / 10)\<rparr>"
  using C1_short_history_forecast
          [of "[\<lparr>date = ''2024-01-02'', close = Num 250, volume = Num 10\<rparr>]"]
  by simp

text \<open>
  Claim C10: the engine is total and never throws, whatever the candles; an empty
  history yields next price 0, an empty projection and confidence 0.2, and a history
  of one candle yields that candle's close, an empty projection and confidence 0.2.
\<close>

theorem C10_total_with_degenerate_results:
  "(\<exists>r. improvedPredict candles = Inr r)
   \<and> improvedPredict [] = Inr \<lparr>nextPrice = Num 0, projectionLine = [], confidence = Num (2 / 10)\<rparr>
   \<and> improvedPredict [c]
       = Inr \<lparr>nextPrice = close c, projectionLine = [], confidence = Num (2 / 10)\<rparr>"
  using improvedPredict_no_throw [of candles]
  by (simp add: improvedPredict_def withConfidence_eq predict_nil predict_single)

section \<open>The fallback paths\<close>

lemma nthN_last: "xs \<noteq> [] \<Longrightarrow> nthN xs (int (length xs) - 1) = last xs"
  by (cases xs rule: rev_cases) (simp_all add: nthN_def nthU_def nullish_def nth_append)

lemma upt5: "[0..<5] = [0, 1, 2, 3, 4]"
  by (simp add: upt_rec)

lemma compound5:
  "fold (\<lambda>i p. compound avg p i) [0..<5] [l] =
     (let g = Num 1 + avg / Num 100;
          p1 = l * g; p2 = p1 * g; p3 = p2 * g; p4 = p3 * g; p5 = p4 * g
      in [l, p1, p2, p3, p4, p5])"
  by (simp add: upt5 compound_def nthN_def nthU_def nullish_def Let_def)

lemma length_pctReturns: "length (pctReturns xs) = length xs - 1"
  by (simp add: pctReturns_def)

lemma foldl_plus_Num: "foldl (+) (Num a) (map Num xs) = Num (a + sum_list xs)"
  by (induction xs arbitrary: a) (simp_all add: add.assoc)

lemma sumN_Num: "sumN (map Num xs) = Num (sum_list xs)"
  by (simp add: sumN_def foldl_plus_Num)

lemma nthN_pred: "Suc i < length xs \<Longrightarrow> nthN xs (int (Suc i) - 1) = xs ! i"
  by (simp add: nthN_def nthU_def nullish_def)

lemma pctReturns_nth:
  assumes "i < length xs - 1"
  shows "pctReturns xs ! i = pctReturn (xs ! i) (xs ! Suc i)"
proof -
  have s: "Suc i < length xs" using assms by simp
  have "[1..<length xs] ! i = Suc i" using assms by simp
  then show ?thesis
    using assms s nthN_pred[OF s] nthN_int[of xs "Suc i"]
    by (simp add: pctReturns_def del: of_nat_Suc)
qed

lemma predict_long:
  assumes "2 \<le> length values"
  shows "predict values =
     (let g = Num 1 + (sumN (pctReturns values) / Num (real (length values - 1))) / Num 100;
          p1 = last values * g; p2 = p1 * g; p3 = p2 * g; p4 = p3 * g; p5 = p4 * g
      in \<lparr>nextPrice = p5, projectionLine = [p1, p2, p3, p4, p5]\<rparr>)"
proof -
  have ne: "values \<noteq> []" using assms by auto
  have nz: "length values - 1 \<noteq> 0" using assms by simp
  have six: "nthN [a, b, c, d, e, f] 5 = f" for a b c d e f
    by (simp add: nthN_def nthU_def nullish_def)
  have pne: "pctReturns values \<noteq> []"
    using length_pctReturns[of "values"] nz by (metis length_0_conv)
  show ?thesis
    using assms nz pne
    by (simp add: predict_def length_pctReturns nthN_last[OF ne] compound5 Let_def six
        del: fold_simps)
qed

lemma pctReturns_Num:
  assumes "\<forall>v\<in>set vs. 0 < v"
  shows "pctReturns (map Num vs)
           = map Num (map (\<lambda>i. (vs ! (i + 1) - vs ! i) / vs ! i * 100) [0..<length vs - 1])"
proof (rule nth_equalityI)
  show "length (pctReturns (map Num vs))
          = length (map Num (map (\<lambda>i. (vs ! (i + 1) - vs ! i) / vs ! i * 100) [0..<length vs - 1]))"
    by (simp add: length_pctReturns)
next
  fix i assume "i < length (pctReturns (map Num vs))"
  then have i: "i < length vs - 1" by (simp add: length_pctReturns)
  then have "vs ! i \<in> set vs" by simp
  then have nz: "vs ! i \<noteq> 0" using assms by fastforce
  have "pctReturns (map Num vs) ! i = pctReturn (Num (vs ! i)) (Num (vs ! Suc i))"
    using pctReturns_nth[of i "map Num vs"] i by simp
  also have "\<dots> = Num ((vs ! (i + 1) - vs ! i) / vs ! i * 100)"
    using nz by (simp add: pctReturn_def minus_jsnum_def)
  finally show "pctReturns (map Num vs) ! i
        = map Num (map (\<lambda>i. (vs ! (i + 1) - vs ! i) / vs ! i * 100) [0..<length vs - 1]) ! i"
    using i by simp
qed

lemma predict_fallbackPath:
  assumes "2 \<le> length vs" and "\<forall>v\<in>set vs. 0 < v"
  shows "predict (map Num vs)
           = \<lparr>nextPrice = Num (last (fallbackPath vs)), projectionLine = map Num (fallbackPath vs)\<rparr>"
proof -
  have ne: "vs \<noteq> []" using assms(1) by auto
  have nz: "real (length vs - 1) \<noteq> 0" using assms(1) by simp
  have s: "sumN (pctReturns (map Num vs)) / Num (real (length (map Num vs) - 1))
             = Num (meanPctChange vs)"
    using nz
    by (simp add: pctReturns_Num[OF assms(2)] sumN_Num meanPctChange_def
          interv_sum_list_conv_sum_set_nat atLeast0LessThan del: map_map)
  have l: "last (map Num vs) = Num (last vs)" using ne by (simp add: last_map)
  have len: "2 \<le> length (map Num vs)" using assms(1) by simp
  show ?thesis
    unfolding predict_long[OF len] s l by (simp add: fallbackPath_def Let_def)
qed

lemma close_candlesOf: "map close (candlesOf cs) = map Num cs"
  by (simp add: candlesOf_def o_def)

lemma sum2: "(\<Sum>i<(2::nat). f i) = f 0 + (f 1 :: real)"
  by (simp add: eval_nat_numeral lessThan_Suc)

lemma fallbackPath_example:
  "fallbackPath [100, 110, 99] = [99, 99, 99, 99, 99]"
  by (simp add: fallbackPath_def meanPctChange_def sum2 Let_def)

lemma fallbackPath_two:
  "fallbackPath [100, 110] = [121, 1331 / 10, 14641 / 100, 161051 / 1000, 1771561 / 10000]"
  by (simp add: fallbackPath_def meanPctChange_def Let_def)

lemma meanPctChange_large: "meanPctChange largeReals = 0"
  by (simp add: meanPctChange_def largeReals_def nth_Cons' )

lemma fallbackPath_large:
  "fallbackPath largeReals = [10000000, 10000000, 10000000, 10000000, 10000000]"
  by (simp add: fallbackPath_def meanPctChange_large Let_def) (simp add: largeReals_def)

text \<open>
  Claim C4: a history of 2 to 29 candles gets the fallback predictor's result with
  confidence exactly 0.2, the regression and the backtest being bypassed; a history
  of 30 candles or more whose full-sample fit signals Singular gets the fallback
  predictor's result with confidence exactly 0.1; neither surfaces an error. The
  second part is stated for every outcome \<^verbatim>\<open>null\<close> of the call of line 172, through
  \<open>improvedPredictWith\<close>. The fallback predictor's result, on a history of positive
  closes, is \<open>fallbackPath\<close>: the last close compounded five times by the mean percent
  change, with the last of the five prices as next price.
\<close>

theorem C4_fallback_confidence:
  "(2 \<le> length candles \<and> length candles < 30 \<longrightarrow>
      improvedPredict candles =
        Inr \<lparr>nextPrice = nextPrice (predict (map close candles)),
             projectionLine = projectionLine (predict (map close candles)),
             confidence = Num (2 / 10)\<rparr>)
   \<and> (30 \<le> length history
        \<and> solve (fullFeatures (map close history)) (fullTargets (map close history)) (Num (1 / 100))
            = Inr None \<longrightarrow>
      improvedPredictWith solve history =
        Inr \<lparr>nextPrice = nextPrice (predict (map close history)),
             projectionLine = projectionLine (predict (map close history)),
             confidence = Num (1 / 10)\<rparr>)
   \<and> improvedPredictWith linearRidge candles = improvedPredict candles
   \<and> (2 \<le> length vs \<and> (\<forall>v\<in>set vs. 0 < v) \<longrightarrow>
      predict (map Num vs)
        = \<lparr>nextPrice = Num (last (fallbackPath vs)), projectionLine = map Num (fallbackPath vs)\<rparr>)"
  using predict_fallbackPath [of vs]
  by (simp add: improvedPredict_def improvedPredictWith_def afterFit_def withConfidence_eq Let_def)

theorem C4_fallback_confidence_witness:
  "improvedPredict (candlesOf [100, 110]) =
     Inr \<lparr>nextPrice = Num (1771561 / 10000),
          projectionLine = [Num 121, Num (1331 / 10), Num (14641 / 100), Num (161051 / 1000),
                            Num (1771561 / 10000)],
          confidence = Num (2 / 10)\<rparr>
   \<and> improvedPredictWith (\<lambda>X y l. Inr None) (candlesOf largeReals) =
     Inr \<lparr>nextPrice = Num 10000000,
          projectionLine = [Num 10000000, Num 10000000, Num 10000000, Num 10000000, Num 10000000],
          confidence = Num (1 / 10)\<rparr>
   \<and> predict (map Num [100, 110, 99]) =
       \<lparr>nextPrice = Num 99, projectionLine = [Num 99, Num 99, Num 99, Num 99, Num 99]\<rparr>"
proof -
  let ?s = "\<lambda>X y l. Inr None :: error + jsnum list option"
  have l: "length (candlesOf largeReals) = 30" "length largeReals = 30"
    by (simp_all add: candlesOf_def largeReals_def)
  have l2: "length (candlesOf [100, 110]) = 2" by (simp add: candlesOf_def)
  have p: "\<forall>v\<in>set largeReals. 0 < v" by (simp add: largeReals_def)
  have a: "improvedPredict (candlesOf [100, 110]) =
        Inr \<lparr>nextPrice = nextPrice (predict (map Num [100, 110])),
             projectionLine = projectionLine (predict (map Num [100, 110])),
             confidence = Num (2 / 10)\<rparr>"
    using C4_fallback_confidence [of "candlesOf [100, 110]" "candlesOf largeReals" ?s "[100, 110]", THEN conjunct1] l2
    by (simp add: close_candlesOf)
  have a': "predict (map Num [100, 110])
        = \<lparr>nextPrice = Num (last (fallbackPath [100, 110])),
           projectionLine = map Num (fallbackPath [100, 110])\<rparr>"
    using C4_fallback_confidence [of "candlesOf [100, 110]" "candlesOf largeReals" ?s "[100, 110]",
               THEN conjunct2, THEN conjunct2, THEN conjunct2]
    by simp
  have b: "improvedPredictWith ?s (candlesOf largeReals) =
        Inr \<lparr>nextPrice = nextPrice (predict (map Num largeReals)),
             projectionLine = projectionLine (predict (map Num largeReals)),
             confidence = Num (1 / 10)\<rparr>"
    using C4_fallback_confidence [of "candlesOf [100, 110]" "candlesOf largeReals" ?s "[100, 110]",
               THEN conjunct2, THEN conjunct1] l
    by (simp add: close_candlesOf)
  have b': "predict (map Num largeReals)
        = \<lparr>nextPrice = Num (last (fallbackPath largeReals)),
           projectionLine = map Num (fallbackPath largeReals)\<rparr>"
    using C4_fallback_confidence [of "candlesOf [100, 110]" "candlesOf largeReals" ?s largeReals,
               THEN conjunct2, THEN conjunct2, THEN conjunct2] l p
    by simp
  have c: "predict (map Num [100, 110, 99])
        = \<lparr>nextPrice = Num (last (fallbackPath [100, 110, 99])),
           projectionLine = map Num (fallbackPath [100, 110, 99])\<rparr>"
    using C4_fallback_confidence [of "candlesOf [100, 110]" "candlesOf largeReals" ?s "[100, 110, 99]",
               THEN conjunct2, THEN conjunct2, THEN conjunct2]
    by simp
  show ?thesis
    unfolding a a' b b' c by (simp add: fallbackPath_two fallbackPath_large fallbackPath_example)
qed


section \<open>The training set\<close>

lemma pctReturns_take: "pctReturns (take k xs) = take (k - 1) (pctReturns xs)"
proof (rule nth_equalityI)
  show "length (pctReturns (take k xs)) = length (take (k - 1) (pctReturns xs))"
    by (simp add: length_pctReturns min_def)
next
  fix i assume "i < length (pctReturns (take k xs))"
  then have i: "i < min k (length xs) - 1"
    by (simp add: length_pctReturns min_def split: if_splits)
  then have "i < length (take k xs) - 1" "i < length xs - 1" "i < k - 1" "i < k" "Suc i < k"
    by auto
  then show "pctReturns (take k xs) ! i = take (k - 1) (pctReturns xs) ! i"
    by (simp add: pctReturns_nth)
qed







section \<open>The volatility feature\<close>

lemma foldl_sq_Num:
  "foldl (\<lambda>a b. a + (b - Num m) * (b - Num m)) (Num a) (map Num xs)
     = Num (a + sum_list (map (\<lambda>x. (x - m) * (x - m)) xs))"
  by (induction xs arbitrary: a) (simp_all add: minus_jsnum_def add.assoc)

lemma sum_sq_nonneg: "0 \<le> sum_list (map (\<lambda>x. (x - m) * (x - m)) xs)" for m :: real
  by (induction xs) simp_all

lemma stddev_Num: "xs \<noteq> [] \<Longrightarrow> stddev (map Num xs) = Num (populationStddev xs)"
  using sum_sq_nonneg[of "meanR xs" xs]
  by (simp add: stddev_def populationStddev_def meanR_def sumN_Num foldl_sq_Num Let_def
      divide_nonneg_nonneg not_less)

lemma sumN_zeros: "foldl (+) (Num 0) (map (\<lambda>_. Num 0) xs) = Num 0"
  by (induction xs) simp_all

lemma foldl_sq_zeros:
  "foldl (\<lambda>a b. a + (b - Num 0) * (b - Num 0)) (Num 0) (map (\<lambda>_. Num 0) xs) = Num 0"
  by (induction xs) (simp_all add: minus_jsnum_def)

lemma stddev_zeros: "orElse (stddev (map (\<lambda>_. Num 0) xs)) (Num 0) = Num 0"
  by (cases "xs = []")
     (simp_all add: stddev_def orElse_def sumN_def sumN_zeros foldl_sq_zeros Let_def)

lemma orElse_Num0: "orElse (Num v) (Num 0) = Num v"
  by (simp add: orElse_def)

lemma slice_map: "slice (map f xs) a b = map f (slice xs a b)"
  by (simp add: slice_def take_map drop_map)

lemma upt_1_32:
  "[1..<32] = [1, 2, 3, 4, 5, 6, 7, 8, 9, 10, 11, 12, 13, 14, 15, 16, 17, 18, 19, 20,
               21, 22, 23, 24, 25, 26, 27, 28, 29, 30, 31]"
  by (simp add: upt_rec)

lemma example_returns:
  "pctReturns exampleCloses =
     map Num [10, - (100 / 11), 10, - (100 / 11), 10, - (100 / 11), 10, - (100 / 11),
              10, - (100 / 11), 10, - (100 / 11), 10, - (100 / 11), 10, - (100 / 11),
              10, - (100 / 11), 10, - (100 / 11), 10, - (100 / 11), 10, - (100 / 11),
              10, - (100 / 11), 10, - (100 / 11), 10, - (100 / 11), 10]"
  by (simp add: exampleCloses_def exampleReals_def pctReturns_def upt_1_32 nthN_def nthU_def
      nullish_def pctReturn_def minus_jsnum_def)

lemma example_live_volatility:
  "liveRow exampleCloses (pctReturns exampleCloses) ! 6 = Num (sqrt (11025 / 121))"
  by (simp add: liveRow_def example_returns stddev_def sumN_def minus_jsnum_def Let_def)

lemma example_live_volatility_at_30:
  "liveRow (take 31 exampleCloses) (pctReturns (take 31 exampleCloses)) ! 6
     = Num (sqrt (11025 / 121))"
  by (simp add: liveRow_def pctReturns_take example_returns stddev_def sumN_def
      minus_jsnum_def Let_def)

lemma example_split_volatility: "splitRow exampleCloses 30 ! 6 = Num (sqrt (9000 / 361))"
  by (simp add: splitRow_def exampleCloses_def exampleReals_def slice_def stddev_def sumN_def
      minus_jsnum_def Let_def orElse_def)

lemma trainRow_volatility: "trainRow closes i ! 6 = Num 0"
  by (simp add: trainRow_def Let_def stddev_zeros)

text \<open>
  Claim C8: the backtest computes the volatility feature differently from the live
  forecast. In every training row of the backtest the component at index 6 is 0, a
  placeholder; in the row of a rollout step it is the population standard deviation of
  the trailing 20 or fewer percent returns, which is not 0 for some inputs (here the
  first rollout row of the example history).
\<close>

theorem C8_backtest_volatility_placeholder:
  "trainRow closes i ! 6 = Num 0
   \<and> liveRow lastCloses lastReturns ! 6 = stddev (drop (length lastReturns - 20) lastReturns)
   \<and> (rs \<noteq> [] \<longrightarrow>
        liveRow lastCloses (map Num rs) ! 6
          = Num (populationStddev (drop (length rs - 20) rs)))
   \<and> liveRow exampleCloses (pctReturns exampleCloses) ! 6 \<noteq> Num 0"
proof -
  have live: "liveRow lastCloses rt ! 6 = stddev (drop (length rt - 20) rt)" for rt
    by (simp add: liveRow_def)
  have finite: "rs \<noteq> [] \<longrightarrow>
        liveRow lastCloses (map Num rs) ! 6
          = Num (populationStddev (drop (length rs - 20) rs))"
  proof
    assume "rs \<noteq> []"
    then have "length rs - 20 < length rs" by (cases rs) simp_all
    then have "drop (length rs - 20) rs \<noteq> []" by simp
    then show "liveRow lastCloses (map Num rs) ! 6
          = Num (populationStddev (drop (length rs - 20) rs))"
      using stddev_Num[of "drop (length rs - 20) rs"] by (simp add: live drop_map)
  qed
  have nonzero: "liveRow exampleCloses (pctReturns exampleCloses) ! 6 \<noteq> Num 0"
    by (simp add: example_live_volatility)
  show ?thesis
    using trainRow_volatility[of closes i] live[of lastReturns] finite nonzero by blast
qed

theorem C8_backtest_volatility_placeholder_witness:
  "liveRow [Num 100, Num 110, Num 99] (map Num [10, - 10]) ! 6
     = Num (populationStddev [10, - 10])
   \<and> populationStddev [10, - 10] = 10
   \<and> trainRow exampleCloses 25 ! 6 = Num 0"
proof -
  have "populationStddev [10, - 10] = sqrt (10 * 10)"
    by (simp add: populationStddev_def meanR_def)
  then have "populationStddev [10, - 10] = 10" by simp
  then show ?thesis
    using C8_backtest_volatility_placeholder
            [of exampleCloses 25 "[Num 100, Num 110, Num 99]" "[]" "[10, - 10]"]
    by simp
qed

text \<open>
  Claim C9: the feature vector the backtest builds at the split \<open>s\<close>, to predict day
  \<open>s + 1\<close>, takes as volatility the population standard deviation of the raw closes
  \<open>closes[max(0, s - 19) .. s - 1]\<close>, prices and not percent returns; that differs from
  the constant 0 of the training rows and from the deviation of returns of the live
  rollout (shown at the split 30 of the example history).
\<close>

theorem C9_split_volatility_of_prices:
  "splitRow closes s ! 6 = orElse (stddev (slice closes (s - 19) s)) (Num 0)
   \<and> (0 < s \<and> s < length cs \<longrightarrow>
        splitRow (map Num cs) s ! 6 = Num (populationStddev (slice cs (s - 19) s)))
   \<and> splitRow exampleCloses 30 ! 6 \<noteq> trainRow exampleCloses 30 ! 6
   \<and> splitRow exampleCloses 30 ! 6
        \<noteq> liveRow (take 31 exampleCloses) (pctReturns (take 31 exampleCloses)) ! 6"
proof -
  have g: "splitRow closes s ! 6 = orElse (stddev (slice closes (s - 19) s)) (Num 0)" for closes
    by (simp add: splitRow_def Let_def)
  have finite: "0 < s \<and> s < length cs \<longrightarrow>
        splitRow (map Num cs) s ! 6 = Num (populationStddev (slice cs (s - 19) s))"
  proof
    assume "0 < s \<and> s < length cs"
    then have "slice cs (s - 19) s \<noteq> []" by (auto simp: slice_def)
    then show "splitRow (map Num cs) s ! 6 = Num (populationStddev (slice cs (s - 19) s))"
      by (simp add: g slice_map stddev_Num orElse_Num0)
  qed
  have d1: "splitRow exampleCloses 30 ! 6 \<noteq> trainRow exampleCloses 30 ! 6"
    by (simp add: trainRow_volatility example_split_volatility)
  have d2: "splitRow exampleCloses 30 ! 6
        \<noteq> liveRow (take 31 exampleCloses) (pctReturns (take 31 exampleCloses)) ! 6"
    by (simp add: example_split_volatility example_live_volatility_at_30)
  show ?thesis
    using g[of closes] finite d1 d2 by blast
qed

theorem C9_split_volatility_of_prices_witness:
  "splitRow (map Num exampleReals) 30 ! 6
     = Num (populationStddev (slice exampleReals (30 - 19) 30))
   \<and> slice exampleReals (30 - 19) 30
        = [110, 100, 110, 100, 110, 100, 110, 100, 110, 100,
           110, 100, 110, 100, 110, 100, 110, 100, 110]"
proof -
  have l: "length exampleReals = 32" by (simp add: exampleReals_def)
  have "slice exampleReals (30 - 19) 30
        = [110, 100, 110, 100, 110, 100, 110, 100, 110, 100,
           110, 100, 110, 100, 110, 100, 110, 100, 110]"
    by (simp add: slice_def exampleReals_def)
  then show ?thesis
    using C9_split_volatility_of_prices [of "[]" 30 exampleReals] l
    by simp
qed

section \<open>The rollout\<close>

lemma rolloutLoop_funpow:
  "step \<le> 5 \<Longrightarrow> rolloutLoop beta step st = (rolloutStep beta ^^ (5 - step)) st"
proof (induction beta step st rule: rolloutLoop.induct)
  case (1 beta step st)
  show ?case
  proof (cases "step < 5")
    case True
    then have "5 - step = Suc (5 - (step + 1))" by simp
    with True "1.IH" show ?thesis
      by (subst rolloutLoop.simps) (simp add: funpow_swap1)
  next
    case False
    with "1.prems" show ?thesis by (subst rolloutLoop.simps) simp
  qed
qed

lemma rollout_projection_length:
  "(rolloutStep beta ^^ k) (cl, rt, pr) = (cl', rt', pr') \<Longrightarrow> length pr' = length pr + k"
proof (induction k arbitrary: cl' rt' pr')
  case 0
  then show ?case by simp
next
  case (Suc k)
  obtain c r p where s: "(rolloutStep beta ^^ k) (cl, rt, pr) = (c, r, p)"
    by (metis prod_cases3)
  have "rolloutStep beta (c, r, p) = (cl', rt', pr')" using Suc.prems s by simp
  then have "length pr' = length p + 1" by (auto simp: rolloutStep_def Let_def)
  with Suc.IH[OF s] show ?case by simp
qed

lemma sma_Num: "0 < k \<Longrightarrow> k \<le> length cs \<Longrightarrow> sma (map Num cs) k = Num (smaR cs k)"
  by (simp add: sma_def smaR_def drop_map sumN_Num)

lemma ema_fold_Num:
  "foldl (\<lambda>prev x. x * Num k + prev * (Num 1 - Num k)) (Num a) (map Num xs)
     = Num (foldl (\<lambda>prev c. c * k + prev * (1 - k)) a xs)"
  by (induction xs arbitrary: a) (simp_all add: minus_jsnum_def)

lemma ema_Num: "cs \<noteq> [] \<Longrightarrow> ema (map Num cs) k = Num (emaR cs k)"
proof -
  assume ne: "cs \<noteq> []"
  have k: "Num 2 / (Num (real k) + Num 1) = Num (2 / (real k + 1))"
    by (simp add: add_nonneg_eq_0_iff)
  show ?thesis
    using ne by (cases cs) (simp_all add: ema_def emaR_def Let_def k ema_fold_Num)
qed

lemma momentum_Num:
  assumes "20 \<le> length cs"
  shows "momentum (map Num cs) = Num (last cs - smaR cs 20)"
proof -
  have ne: "map Num cs \<noteq> []" using assms by auto
  have l: "nthN (map Num cs) (int (length (map Num cs)) - 1) = Num (last cs)"
    using nthN_last[OF ne] ne by (simp add: last_map)
  have s: "sma (map Num cs) 20 = Num (smaR cs 20)" using assms by (simp add: sma_Num)
  show ?thesis
    unfolding momentum_def l s by (simp add: orElse_def minus_jsnum_def)
qed

lemma liveRow_Num:
  assumes "20 \<le> length cs" and "rs \<noteq> []"
  shows "liveRow (map Num cs) (map Num rs) = map Num (featureVector cs rs)"
proof -
  have ne: "cs \<noteq> []" using assms(1) by auto
  have "length rs - 20 < length rs" using assms(2) by (cases rs) simp_all
  then have d: "drop (length rs - 20) rs \<noteq> []" by simp
  have r: "nullish (nthU (map Num rs) (int (length (map Num rs)) - 1)) (Num 0) = Num (last rs)"
    using assms(2) by (cases rs rule: rev_cases) (simp_all add: nthU_def nullish_def nth_append)
  have sd: "stddev (drop (length (map Num rs) - 20) (map Num rs))
              = Num (populationStddev (drop (length rs - 20) rs))"
    using stddev_Num[OF d] by (simp add: drop_map)
  show ?thesis
    unfolding liveRow_def r sd
    using assms(1) ne by (simp add: featureVector_def sma_Num ema_Num momentum_Num)
qed

lemma dot_fold_Num:
  assumes "k \<le> length f" and "length b = length f"
  shows "foldl (\<lambda>acc j. acc + (map Num f ! j) * nthN (map Num b) (int j)) (Num 0) [0..<k]
           = Num (\<Sum>j<k. f ! j * b ! j)"
  using assms(1)
proof (induction k)
  case 0
  show ?case by simp
next
  case (Suc k)
  then have k: "k < length f" "k < length b" using assms(2) by simp_all
  have "nthN (map Num b) (int k) = Num (b ! k)"
    using k by (simp add: nthN_def nthU_def nullish_def)
  with Suc k show ?case by simp
qed

lemma dot_Num:
  "length b = length f \<Longrightarrow> dot (map Num f) (map Num b) = Num (\<Sum>j<length f. f ! j * b ! j)"
  using dot_fold_Num[of "length f" f b] by (simp add: dot_def)

lemma length_featureVector: "length (featureVector cs rs) = 8"
  by (simp add: featureVector_def)

lemma rolloutStep_Num:
  assumes "20 \<le> length cs" and "rs \<noteq> []" and "length b = 8"
  shows "rolloutStep (map Num b) (liftRollout (cs, rs, proj)) = liftRollout (rolloutSpec b (cs, rs, proj))"
proof -
  have ne: "map Num cs \<noteq> []" using assms(1) by auto
  have l: "nthN (map Num cs) (int (length (map Num cs)) - 1) = Num (last cs)"
    using nthN_last[OF ne] ne by (simp add: last_map)
  have d: "dot (liveRow (map Num cs) (map Num rs)) (map Num b)
             = Num (\<Sum>j<8. featureVector cs rs ! j * b ! j)"
    using dot_Num[of b "featureVector cs rs"] assms(3)
    by (simp add: liveRow_Num[OF assms(1,2)] length_featureVector)
  show ?thesis
    by (simp add: liftRollout_def rolloutSpec_def rolloutStep_def Let_def l d del: length_map)
qed

lemma rollout_funpow_Num:
  assumes "20 \<le> length cs" and "rs \<noteq> []" and "length b = 8"
  shows "(rolloutStep (map Num b) ^^ k) (liftRollout (cs, rs, proj))
           = liftRollout ((rolloutSpec b ^^ k) (cs, rs, proj))
         \<and> 20 \<le> length (fst ((rolloutSpec b ^^ k) (cs, rs, proj)))
         \<and> fst (snd ((rolloutSpec b ^^ k) (cs, rs, proj))) \<noteq> []"
proof (induction k)
  case 0
  show ?case using assms by simp
next
  case (Suc k)
  obtain c r p where s: "(rolloutSpec b ^^ k) (cs, rs, proj) = (c, r, p)"
    by (metis prod_cases3)
  from Suc s have ih: "(rolloutStep (map Num b) ^^ k) (liftRollout (cs, rs, proj)) = liftRollout (c, r, p)"
    and c: "20 \<le> length c" and r: "r \<noteq> []" by simp_all
  have "(rolloutStep (map Num b) ^^ Suc k) (liftRollout (cs, rs, proj))
          = rolloutStep (map Num b) (liftRollout (c, r, p))"
    by (simp add: ih)
  also have "\<dots> = liftRollout (rolloutSpec b (c, r, p))"
    using rolloutStep_Num[OF c r assms(3)] .
  finally have a: "(rolloutStep (map Num b) ^^ Suc k) (liftRollout (cs, rs, proj))
          = liftRollout ((rolloutSpec b ^^ Suc k) (cs, rs, proj))"
    by (simp add: s)
  have b: "20 \<le> length (fst (rolloutSpec b (c, r, p)))"
       "fst (snd (rolloutSpec b (c, r, p))) \<noteq> []"
    using c by (simp_all add: rolloutSpec_def Let_def)
  show ?case using a b by (simp add: s)
qed

lemma upt_0_29: "[0..<29] = [0, 1, 2, 3, 4, 5, 6, 7, 8, 9, 10, 11, 12, 13, 14, 15, 16, 17, 18, 19, 20,
               21, 22, 23, 24, 25, 26, 27, 28]"
  by (simp add: upt_rec)

lemma flat_returns: "pctReturns (map Num flatReals) = map Num flatReturns"
proof -
  have p: "\<forall>v\<in>set flatReals. 0 < v" by (simp add: flatReals_def)
  have l: "length flatReals - 1 = 29" by (simp add: flatReals_def)
  show ?thesis
    unfolding pctReturns_Num[OF p] l upt_0_29
    by (simp add: flatReals_def flatReturns_def)
qed

lemma sum8: "(\<Sum>j<(8::nat). f j) = f 0 + f 1 + f 2 + f 3 + f 4 + f 5 + f 6 + (f 7 :: real)"
  by (simp add: eval_nat_numeral lessThan_Suc add.assoc)

lemma example_step1:
  "rolloutSpec exampleBeta (flatReals, flatReturns, []) =
     (flatReals @ [201 / 2], flatReturns @ [1 / 2], [201 / 2])"
  by (simp add: rolloutSpec_def featureVector_def smaR_def emaR_def sum8 exampleBeta_def
        flatReals_def flatReturns_def Let_def)

lemma example_step2:
  "rolloutSpec exampleBeta (flatReals @ [201 / 2], flatReturns @ [1 / 2], [201 / 2]) =
     (flatReals @ [201 / 2, 1892603203 / 18720000], flatReturns @ [1 / 2, 167809 / 280800],
      [201 / 2, 1892603203 / 18720000])"
  by (simp add: rolloutSpec_def featureVector_def smaR_def emaR_def sum8 exampleBeta_def
        flatReals_def flatReturns_def Let_def)

lemma example_feature2:
  "featureVector (flatReals @ [201 / 2]) (flatReturns @ [1 / 2]) =
     [1, 1 / 2, 1001 / 10, 4001 / 40, 1301 / 13, 2701 / 27, sqrt 19 / 40, 19 / 40]"
  apply (simp add: featureVector_def smaR_def emaR_def populationStddev_def meanR_def
        flatReals_def flatReturns_def)
  apply (simp add: real_sqrt_divide)
  done

lemma funpow2: "(f ^^ 2) x = f (f x)"
  by (simp add: eval_nat_numeral)

lemma funpow5: "(f ^^ 5) x = f (f (f (f (f x))))"
  by (simp add: eval_nat_numeral)

lemma example_rollout:
  "(rolloutSpec exampleBeta ^^ 2) (flatReals, flatReturns, []) =
     (flatReals @ [201 / 2, 1892603203 / 18720000], flatReturns @ [1 / 2, 167809 / 280800],
      [201 / 2, 1892603203 / 18720000])"
  unfolding funpow2 example_step1 example_step2 by (rule refl)

lemma trend_rollout:
  "(rolloutSpec trendBeta ^^ 5) (flatReals, flatReturns, []) =
     (flatReals @ [101, 20503 / 200, 8344721 / 80000, 1360189523 / 12800000,
                   2218469112013 / 20480000000],
      flatReturns @ [1, 3 / 2, 7 / 4, 15 / 8, 31 / 16],
      [101, 20503 / 200, 8344721 / 80000, 1360189523 / 12800000, 2218469112013 / 20480000000])"
proof -
  have s1: "rolloutSpec trendBeta (flatReals, flatReturns, [])
            = (flatReals @ [101], flatReturns @ [1], [101])"
    by (simp add: rolloutSpec_def featureVector_def sum8 trendBeta_def flatReals_def
          flatReturns_def Let_def)
  have s2: "rolloutSpec trendBeta (flatReals @ [101], flatReturns @ [1], [101])
            = (flatReals @ [101, 20503 / 200], flatReturns @ [1, 3 / 2], [101, 20503 / 200])"
    by (simp add: rolloutSpec_def featureVector_def sum8 trendBeta_def flatReals_def
          flatReturns_def Let_def)
  have s3: "rolloutSpec trendBeta (flatReals @ [101, 20503 / 200], flatReturns @ [1, 3 / 2],
                                  [101, 20503 / 200])
            = (flatReals @ [101, 20503 / 200, 8344721 / 80000], flatReturns @ [1, 3 / 2, 7 / 4],
               [101, 20503 / 200, 8344721 / 80000])"
    by (simp add: rolloutSpec_def featureVector_def sum8 trendBeta_def flatReals_def
          flatReturns_def Let_def)
  have s4: "rolloutSpec trendBeta (flatReals @ [101, 20503 / 200, 8344721 / 80000],
                                  flatReturns @ [1, 3 / 2, 7 / 4],
                                  [101, 20503 / 200, 8344721 / 80000])
            = (flatReals @ [101, 20503 / 200, 8344721 / 80000, 1360189523 / 12800000],
               flatReturns @ [1, 3 / 2, 7 / 4, 15 / 8],
               [101, 20503 / 200, 8344721 / 80000, 1360189523 / 12800000])"
    by (simp add: rolloutSpec_def featureVector_def sum8 trendBeta_def flatReals_def
          flatReturns_def Let_def)
  have s5: "rolloutSpec trendBeta (flatReals @ [101, 20503 / 200, 8344721 / 80000, 1360189523 / 12800000],
               flatReturns @ [1, 3 / 2, 7 / 4, 15 / 8],
               [101, 20503 / 200, 8344721 / 80000, 1360189523 / 12800000])
            = (flatReals @ [101, 20503 / 200, 8344721 / 80000, 1360189523 / 12800000,
                   2218469112013 / 20480000000],
      flatReturns @ [1, 3 / 2, 7 / 4, 15 / 8, 31 / 16],
      [101, 20503 / 200, 8344721 / 80000, 1360189523 / 12800000, 2218469112013 / 20480000000])"
    by (simp add: rolloutSpec_def featureVector_def sum8 trendBeta_def flatReals_def
          flatReturns_def Let_def)
  show ?thesis unfolding funpow5 s1 s2 s3 s4 s5 by (rule refl)
qed

text \<open>
  Claim C6: the rollout performs exactly 5 iterations with no early exit and returns a
  projection of exactly 5 prices; each step's price is the last close times
  \<open>1 + dot(feature, beta) / 100\<close>; the price and the return are appended to the rolling
  buffers before the next step; and the returned next price is the last element of
  the projection. On finite values \<^verbatim>\<open>dot\<close> is the inner product, the row of a step
  is \<open>featureVector\<close>, and any number of steps of the loop body are as many steps of
  \<open>rolloutSpec\<close>.
\<close>

theorem C6_rollout_five_steps:
  "rolloutLoop beta 0 st = (rolloutStep beta ^^ 5) st
   \<and> rolloutStep beta (lastCloses, lastReturns, projection) =
       (let predReturn = dot (liveRow lastCloses lastReturns) beta;
            price = nthN lastCloses (int (length lastCloses) - 1) * (Num 1 + predReturn / Num 100)
        in (lastCloses @ [price], lastReturns @ [predReturn], projection @ [price]))
   \<and> (\<exists>res cl rt.
         regression closes beta = Inr res
         \<and> (rolloutStep beta ^^ 5) (closes, pctReturns closes, []) = (cl, rt, projectionLine res)
         \<and> length (projectionLine res) = 5
         \<and> nextPrice res = last (projectionLine res))
   \<and> (length b = length f \<longrightarrow>
         dot (map Num f) (map Num b) = Num (\<Sum>j<length f. f ! j * b ! j))
   \<and> (20 \<le> length cs \<and> rs \<noteq> [] \<and> length b8 = 8 \<longrightarrow>
         liveRow (map Num cs) (map Num rs) = map Num (featureVector cs rs)
         \<and> (rolloutStep (map Num b8) ^^ k) (liftRollout (cs, rs, proj))
             = liftRollout ((rolloutSpec b8 ^^ k) (cs, rs, proj)))"
proof -
  obtain es where es: "backtestLoop closes 30 [] = Inr es"
    using backtestLoop_no_throw by blast
  obtain c r p where s: "(rolloutStep beta ^^ 5) (closes, pctReturns closes, []) = (c, r, p)"
    by (metis prod_cases3)
  have l: "length p = 5" using rollout_projection_length[OF s] by simp
  then have "p \<noteq> []" by auto
  then have "nthN p (int (length p) - 1) = last p" by (rule nthN_last)
  then have c3: "\<exists>res cl rt.
         regression closes beta = Inr res
         \<and> (rolloutStep beta ^^ 5) (closes, pctReturns closes, []) = (cl, rt, projectionLine res)
         \<and> length (projectionLine res) = 5
         \<and> nextPrice res = last (projectionLine res)"
    using es s l by (simp add: regression_def Let_def rolloutLoop_funpow)
  have c1: "rolloutLoop beta 0 st = (rolloutStep beta ^^ 5) st"
    by (simp add: rolloutLoop_funpow)
  have c2: "rolloutStep beta (lastCloses, lastReturns, projection) =
       (let predReturn = dot (liveRow lastCloses lastReturns) beta;
            price = nthN lastCloses (int (length lastCloses) - 1) * (Num 1 + predReturn / Num 100)
        in (lastCloses @ [price], lastReturns @ [predReturn], projection @ [price]))"
    by (simp add: rolloutStep_def Let_def)
  have c4: "length b = length f \<longrightarrow>
         dot (map Num f) (map Num b) = Num (\<Sum>j<length f. f ! j * b ! j)"
    using dot_Num by blast
  have c5: "20 \<le> length cs \<and> rs \<noteq> [] \<and> length b8 = 8 \<longrightarrow>
         liveRow (map Num cs) (map Num rs) = map Num (featureVector cs rs)
         \<and> (rolloutStep (map Num b8) ^^ k) (liftRollout (cs, rs, proj))
             = liftRollout ((rolloutSpec b8 ^^ k) (cs, rs, proj))"
    using liveRow_Num[of cs rs] rollout_funpow_Num[of cs rs b8 k proj] by blast
  show ?thesis using c1 c2 c3 c4 c5 by blast
qed

lemma sum3: "(\<Sum>j<(3::nat). f j) = f 0 + f 1 + (f 2 :: real)"
  by (simp add: eval_nat_numeral lessThan_Suc add.assoc)

theorem C6_rollout_five_steps_witness:
  "dot (map Num [1, 2, 3]) (map Num [4, 5, 6]) = Num 32
   \<and> liveRow (map Num (flatReals @ [201 / 2])) (map Num (flatReturns @ [1 / 2]))
       = map Num [1, 1 / 2, 1001 / 10, 4001 / 40, 1301 / 13, 2701 / 27, sqrt 19 / 40, 19 / 40]
   \<and> (rolloutStep (map Num exampleBeta) ^^ 2) (map Num flatReals, pctReturns (map Num flatReals), [])
       = (map Num (flatReals @ [201 / 2, 1892603203 / 18720000]),
          map Num (flatReturns @ [1 / 2, 167809 / 280800]),
          map Num [201 / 2, 1892603203 / 18720000])
   \<and> rolloutLoop (map Num trendBeta) 0 (map Num flatReals, pctReturns (map Num flatReals), [])
       = (map Num (flatReals @ [101, 20503 / 200, 8344721 / 80000, 1360189523 / 12800000,
                                 2218469112013 / 20480000000]),
          map Num (flatReturns @ [1, 3 / 2, 7 / 4, 15 / 8, 31 / 16]),
          map Num [101, 20503 / 200, 8344721 / 80000, 1360189523 / 12800000,
                   2218469112013 / 20480000000])
   \<and> (\<exists>res. regression (map Num flatReals) (map Num trendBeta) = Inr res
         \<and> projectionLine res
             = map Num [101, 20503 / 200, 8344721 / 80000, 1360189523 / 12800000,
                        2218469112013 / 20480000000]
         \<and> nextPrice res = Num (2218469112013 / 20480000000))"
proof -
  let ?st = "(map Num flatReals, pctReturns (map Num flatReals), []) :: rollout"
  have st: "?st = liftRollout (flatReals, flatReturns, [])"
    by (simp add: liftRollout_def flat_returns)
  have l: "20 \<le> length flatReals" "flatReturns \<noteq> []" "length exampleBeta = 8" "length trendBeta = 8"
    by (simp_all add: flatReals_def flatReturns_def exampleBeta_def trendBeta_def)
  have l1: "20 \<le> length (flatReals @ [201 / 2])" "flatReturns @ [1 / 2] \<noteq> []"
    using l by simp_all
  note t = C6_rollout_five_steps [where beta = "map Num trendBeta" and st = ?st and closes = "map Num flatReals"
                  and b = "[4, 5, 6]" and f = "[1, 2, 3]"
                  and cs = flatReals and rs = flatReturns and proj = "[]"]
  have w1: "dot (map Num [1, 2, 3]) (map Num [4, 5, 6]) = Num 32"
    using t[THEN conjunct2, THEN conjunct2, THEN conjunct2, THEN conjunct1]
    by (simp add: sum3)
  have w2: "liveRow (map Num (flatReals @ [201 / 2])) (map Num (flatReturns @ [1 / 2]))
       = map Num [1, 1 / 2, 1001 / 10, 4001 / 40, 1301 / 13, 2701 / 27, sqrt 19 / 40, 19 / 40]"
    using C6_rollout_five_steps [where cs = "flatReals @ [201 / 2]" and rs = "flatReturns @ [1 / 2]"
                 and ?b8.0 = exampleBeta,
               THEN conjunct2, THEN conjunct2, THEN conjunct2, THEN conjunct2] l1 l(3)
    unfolding example_feature2 by blast
  have w3: "(rolloutStep (map Num exampleBeta) ^^ 2) ?st
       = liftRollout ((rolloutSpec exampleBeta ^^ 2) (flatReals, flatReturns, []))"
    unfolding st
    using t[where ?b8.0 = exampleBeta and k = 2,
            THEN conjunct2, THEN conjunct2, THEN conjunct2, THEN conjunct2] l
    by blast
  have w4a: "rolloutLoop (map Num trendBeta) 0 ?st = (rolloutStep (map Num trendBeta) ^^ 5) ?st"
    using t[THEN conjunct1] .
  have w4b: "(rolloutStep (map Num trendBeta) ^^ 5) ?st
       = liftRollout ((rolloutSpec trendBeta ^^ 5) (flatReals, flatReturns, []))"
    unfolding st
    using t[where ?b8.0 = trendBeta and k = 5,
            THEN conjunct2, THEN conjunct2, THEN conjunct2, THEN conjunct2] l
    by blast
  obtain res cl rt where r: "regression (map Num flatReals) (map Num trendBeta) = Inr res"
      "(rolloutStep (map Num trendBeta) ^^ 5) ?st = (cl, rt, projectionLine res)"
      "nextPrice res = last (projectionLine res)"
    using t[THEN conjunct2, THEN conjunct2, THEN conjunct1] by blast
  have p: "projectionLine res
             = map Num [101, 20503 / 200, 8344721 / 80000, 1360189523 / 12800000,
                        2218469112013 / 20480000000]"
    using r(2) unfolding w4b trend_rollout by (simp add: liftRollout_def)
  have w5: "\<exists>res. regression (map Num flatReals) (map Num trendBeta) = Inr res
         \<and> projectionLine res
             = map Num [101, 20503 / 200, 8344721 / 80000, 1360189523 / 12800000,
                        2218469112013 / 20480000000]
         \<and> nextPrice res = Num (2218469112013 / 20480000000)"
    using r(1) r(3) p by simp
  have w3': "(rolloutStep (map Num exampleBeta) ^^ 2) ?st
       = (map Num (flatReals @ [201 / 2, 1892603203 / 18720000]),
          map Num (flatReturns @ [1 / 2, 167809 / 280800]),
          map Num [201 / 2, 1892603203 / 18720000])"
    unfolding w3 example_rollout by (simp add: liftRollout_def)
  have w4: "rolloutLoop (map Num trendBeta) 0 ?st
       = (map Num (flatReals @ [101, 20503 / 200, 8344721 / 80000, 1360189523 / 12800000,
                                 2218469112013 / 20480000000]),
          map Num (flatReturns @ [1, 3 / 2, 7 / 4, 15 / 8, 31 / 16]),
          map Num [101, 20503 / 200, 8344721 / 80000, 1360189523 / 12800000,
                   2218469112013 / 20480000000])"
    unfolding w4a w4b trend_rollout by (simp add: liftRollout_def)
  show ?thesis using w1 w2 w3' w4 w5 by blast
qed


section \<open>Gauss-Jordan elimination in exact arithmetic\<close>

lemma fold_choice_in:
  "m0 \<in> S \<Longrightarrow> set rs \<subseteq> S \<Longrightarrow> fold (\<lambda>r m. if P m r then r else m) rs m0 \<in> S"
  by (induction rs arbitrary: m0) auto

lemma findMaxRowR_range:
  assumes "i < n"
  shows "i \<le> findMaxRowR A i n" "findMaxRowR A i n < n"
proof -
  have "findMaxRowR A i n \<in> {i..<n}"
    unfolding findMaxRowR_def using assms by (intro fold_choice_in) auto
  then show "i \<le> findMaxRowR A i n" "findMaxRowR A i n < n" by auto
qed

lemma swapRows_nth:
  "i < length A \<Longrightarrow> m < length A \<Longrightarrow> r < length A \<Longrightarrow>
   swapRows A i m ! r = (if r = m then A ! i else if r = i then A ! m else A ! r)"
  by (simp add: swapRows_def nth_list_update)

lemma scaleRowR_nth:
  "i < length A \<Longrightarrow> r < length A \<Longrightarrow>
   scaleRowR A i p ! r = (if r = i then map (\<lambda>x. x / p) (A ! i) else A ! r)"
  by (simp add: scaleRowR_def nth_list_update)

lemma eliminateR_nth:
  "r < n \<Longrightarrow>
   eliminateR n i A M ! r =
     (if r = i then M ! r else map (\<lambda>c. M ! r ! c - (A ! r ! i) * (M ! i ! c)) [0..<n])"
  by (simp add: eliminateR_def)

lemma wfR_swapRows: "wfR n A \<Longrightarrow> i < n \<Longrightarrow> m < n \<Longrightarrow> wfR n (swapRows A i m)"
  by (simp add: wfR_def swapRows_def nth_list_update)

lemma wfR_scaleRowR: "wfR n A \<Longrightarrow> i < n \<Longrightarrow> wfR n (scaleRowR A i p)"
  by (simp add: wfR_def scaleRowR_def nth_list_update)

lemma wfR_eliminateR: "wfR n M \<Longrightarrow> wfR n (eliminateR n i A M)"
  by (simp add: wfR_def eliminateR_def)

lemma sol_swapRows:
  assumes "wfR n A" "wfR n I" "i < n" "m < n"
  shows "sol n (swapRows A i m) (swapRows I i m) x y \<longleftrightarrow> sol n A I x y"
proof -
  have la: "length A = n" "length I = n" using assms by (simp_all add: wfR_def)
  have row: "\<And>r. r < n \<Longrightarrow> swapRows A i m ! r = (if r = m then A ! i else if r = i then A ! m else A ! r)"
     "\<And>r. r < n \<Longrightarrow> swapRows I i m ! r = (if r = m then I ! i else if r = i then I ! m else I ! r)"
    using assms la by (simp_all add: swapRows_nth)
  show ?thesis
  proof
    assume s: "sol n (swapRows A i m) (swapRows I i m) x y"
    show "sol n A I x y"
      unfolding sol_def
    proof (intro allI impI)
      fix r assume r: "r < n"
      let ?r' = "if r = m then i else if r = i then m else r"
      have r': "?r' < n" using r assms by simp
      have "swapRows A i m ! ?r' = A ! r" "swapRows I i m ! ?r' = I ! r"
        using row[OF r'] by (auto split: if_splits)
      then show "(\<Sum>c<n. A ! r ! c * x c) = (\<Sum>c<n. I ! r ! c * y c)"
        using s[unfolded sol_def, rule_format, OF r'] by simp
    qed
  next
    assume s: "sol n A I x y"
    show "sol n (swapRows A i m) (swapRows I i m) x y"
      unfolding sol_def
    proof (intro allI impI)
      fix r assume r: "r < n"
      show "(\<Sum>c<n. swapRows A i m ! r ! c * x c) = (\<Sum>c<n. swapRows I i m ! r ! c * y c)"
        using s[unfolded sol_def, rule_format] r assms(3,4) by (simp add: row)
    qed
  qed
qed

lemma scaleRowR_rowsum:
  assumes "i < length A" "length (A ! i) = n"
  shows "(\<Sum>c<n. scaleRowR A i p ! i ! c * x c) = (\<Sum>c<n. A ! i ! c * x c) / p"
proof -
  have "(\<Sum>c<n. scaleRowR A i p ! i ! c * x c) = (\<Sum>c<n. (A ! i ! c * x c) / p)"
    using assms by (intro sum.cong) (simp_all add: scaleRowR_nth)
  then show ?thesis by (simp add: sum_divide_distrib)
qed

lemma sol_scaleRowR:
  assumes "wfR n A" "wfR n I" "i < n" "p \<noteq> 0"
  shows "sol n (scaleRowR A i p) (scaleRowR I i p) x y \<longleftrightarrow> sol n A I x y"
proof -
  have la: "i < length A" "i < length I" "length (A ! i) = n" "length (I ! i) = n"
    using assms by (simp_all add: wfR_def)
  note si = scaleRowR_rowsum[OF la(1) la(3), of p x] scaleRowR_rowsum[OF la(2) la(4), of p y]
  have so: "scaleRowR A i p ! r = A ! r" "scaleRowR I i p ! r = I ! r" if "r < n" "r \<noteq> i" for r
    using that assms by (simp_all add: scaleRowR_nth wfR_def)
  have eq: "((\<Sum>c<n. scaleRowR A i p ! r ! c * x c) = (\<Sum>c<n. scaleRowR I i p ! r ! c * y c))
        \<longleftrightarrow> ((\<Sum>c<n. A ! r ! c * x c) = (\<Sum>c<n. I ! r ! c * y c))" if r: "r < n" for r
  proof (cases "r = i")
    case True
    then show ?thesis using assms(4) by (simp add: si)
  next
    case False
    then show ?thesis by (simp add: so[OF r False])
  qed
  show ?thesis unfolding sol_def using eq by blast
qed

lemma eliminateR_rowsum:
  assumes "r < n" "r \<noteq> i"
  shows "(\<Sum>c<n. eliminateR n i A M ! r ! c * x c)
       = (\<Sum>c<n. M ! r ! c * x c) - A ! r ! i * (\<Sum>c<n. M ! i ! c * x c)"
proof -
  have "(\<Sum>c<n. eliminateR n i A M ! r ! c * x c)
      = (\<Sum>c<n. (M ! r ! c - A ! r ! i * (M ! i ! c)) * x c)"
    using assms by (intro sum.cong) (simp_all add: eliminateR_nth)
  also have "\<dots> = (\<Sum>c<n. M ! r ! c * x c - A ! r ! i * (M ! i ! c * x c))"
    by (intro sum.cong) (simp_all add: algebra_simps)
  also have "\<dots> = (\<Sum>c<n. M ! r ! c * x c) - A ! r ! i * (\<Sum>c<n. M ! i ! c * x c)"
    by (simp add: sum_subtractf sum_distrib_left)
  finally show ?thesis .
qed

lemma sol_eliminateR:
  assumes "i < n"
  shows "sol n (eliminateR n i A A) (eliminateR n i A I) x y \<longleftrightarrow> sol n A I x y"
proof -
  have ri: "eliminateR n i A A ! i = A ! i" "eliminateR n i A I ! i = I ! i"
    using assms by (simp_all add: eliminateR_nth)
  show ?thesis
  proof
    assume h: "sol n (eliminateR n i A A) (eliminateR n i A I) x y"
    then have hi: "(\<Sum>c<n. A ! i ! c * x c) = (\<Sum>c<n. I ! i ! c * y c)"
      unfolding sol_def using assms ri by metis
    show "sol n A I x y"
      unfolding sol_def
    proof (intro allI impI)
      fix r assume r: "r < n"
      show "(\<Sum>c<n. A ! r ! c * x c) = (\<Sum>c<n. I ! r ! c * y c)"
      proof (cases "r = i")
        case True
        then show ?thesis using hi by simp
      next
        case False
        from h r have "(\<Sum>c<n. eliminateR n i A A ! r ! c * x c) = (\<Sum>c<n. eliminateR n i A I ! r ! c * y c)"
          unfolding sol_def by blast
        then show ?thesis
          using hi by (simp add: eliminateR_rowsum[OF r False])
      qed
    qed
  next
    assume h: "sol n A I x y"
    show "sol n (eliminateR n i A A) (eliminateR n i A I) x y"
      unfolding sol_def
    proof (intro allI impI)
      fix r assume r: "r < n"
      show "(\<Sum>c<n. eliminateR n i A A ! r ! c * x c) = (\<Sum>c<n. eliminateR n i A I ! r ! c * y c)"
      proof (cases "r = i")
        case True
        then show ?thesis using h[unfolded sol_def] r ri by simp
      next
        case False
        have "(\<Sum>c<n. A ! r ! c * x c) = (\<Sum>c<n. I ! r ! c * y c)"
             "(\<Sum>c<n. A ! i ! c * x c) = (\<Sum>c<n. I ! i ! c * y c)"
          using h[unfolded sol_def] r assms by blast+
        then show ?thesis
          by (simp add: eliminateR_rowsum[OF r False])
      qed
    qed
  qed
qed

lemma unitCols_step:
  assumes wf: "wfR n A" and i: "i < n" and u: "unitCols n i A"
    and m: "i \<le> m" "m < n" and p: "p = swapRows A i m ! i ! i" "p \<noteq> 0"
  defines "A2 \<equiv> scaleRowR (swapRows A i m) i p"
  shows "unitCols n (i + 1) (eliminateR n i A2 A2)"
proof -
  let ?A1 = "swapRows A i m"
  have la: "length A = n" using wf by (simp add: wfR_def)
  have wf1: "wfR n ?A1" using wf i m by (simp add: wfR_swapRows)
  then have l1: "length ?A1 = n" "length (?A1 ! i) = n" using i by (simp_all add: wfR_def)
  have u1: "?A1 ! r ! c = (if r = c then 1 else 0)" if "r < n" "c < i" for r c
    using that u i m la unfolding unitCols_def by (simp add: swapRows_nth)
  have a2o: "A2 ! r = ?A1 ! r" if "r < n" "r \<noteq> i" for r
    using that i l1 by (simp add: A2_def scaleRowR_nth)
  have a2i: "A2 ! i ! c = ?A1 ! i ! c / p" if "c < n" for c
    using that i l1 by (simp add: A2_def scaleRowR_nth)
  have u2: "A2 ! r ! c = (if r = c then 1 else 0)" if "r < n" "c < i" for r c
  proof (cases "r = i")
    case True
    then show ?thesis using that i u1[of i c] a2i[of c] by simp
  next
    case False
    then show ?thesis using that u1[of r c] a2o[of r] by simp
  qed
  have d2: "A2 ! i ! i = 1" using a2i[OF i] p by simp
  show ?thesis
    unfolding unitCols_def
  proof (intro allI impI)
    fix r c assume r: "r < n" and c: "c < i + 1"
    then have cn: "c < n" using i by simp
    show "eliminateR n i A2 A2 ! r ! c = (if r = c then 1 else 0)"
    proof (cases "r = i")
      case True
      show ?thesis
      proof (cases "c = i")
        case True
        with \<open>r = i\<close> i d2 show ?thesis by (simp add: eliminateR_nth)
      next
        case False
        then have "c < i" using c by simp
        with \<open>r = i\<close> i u2[of i c] show ?thesis by (simp add: eliminateR_nth)
      qed
    next
      case False
      have e: "eliminateR n i A2 A2 ! r ! c = A2 ! r ! c - A2 ! r ! i * A2 ! i ! c"
        using r cn False by (simp add: eliminateR_nth)
      show ?thesis
      proof (cases "c = i")
        case True
        with e d2 False show ?thesis by simp
      next
        case False
        then have ci: "c < i" using c by simp
        have "A2 ! i ! c = 0" using u2[OF i ci] ci by simp
        with e u2[OF r ci] show ?thesis by simp
      qed
    qed
  qed
qed

lemma sol_unit:
  assumes "unitCols n n A"
  shows "sol n A I x y \<longleftrightarrow> (\<forall>r<n. x r = (\<Sum>c<n. I ! r ! c * y c))"
proof -
  have "(\<Sum>c<n. A ! r ! c * x c) = x r" if r: "r < n" for r
  proof -
    have "(\<Sum>c<n. A ! r ! c * x c) = (\<Sum>c<n. (if r = c then 1 else 0) * x c)"
      using assms r unfolding unitCols_def by (intro sum.cong) simp_all
    also have "\<dots> = (\<Sum>c<n. if c = r then x c else 0)"
      by (intro sum.cong) auto
    also have "\<dots> = x r" using r by (simp add: sum.delta)
    finally show ?thesis .
  qed
  then show ?thesis unfolding sol_def by simp
qed

lemma invertLoopR_correct:
  "wfR n A \<Longrightarrow> wfR n I \<Longrightarrow> i \<le> n \<Longrightarrow> unitCols n i A \<Longrightarrow> invertLoopR n i A I = Some Inv \<Longrightarrow>
   wfR n Inv \<and> (\<forall>x y. sol n A I x y \<longleftrightarrow> (\<forall>r<n. x r = (\<Sum>c<n. Inv ! r ! c * y c)))"
proof (induction n i A I rule: invertLoopR.induct)
  case (1 n i A I)
  show ?case
  proof (cases "i < n")
    case False
    have "invertLoopR n i A I = Some I"
      using False by (subst invertLoopR.simps) simp
    with "1.prems" False have "i = n" "Inv = I" by simp_all
    with "1.prems" show ?thesis by (simp add: sol_unit)
  next
    case True
    define m where "m = findMaxRowR A i n"
    define A1 where "A1 = swapRows A i m"
    define I1 where "I1 = swapRows I i m"
    define p where "p = A1 ! i ! i"
    define A2 where "A2 = scaleRowR A1 i p"
    define I2 where "I2 = scaleRowR I1 i p"
    have m: "i \<le> m" "m < n" using findMaxRowR_range[OF True] by (simp_all add: m_def)
    have big: "\<not> \<bar>p\<bar> < 1 / 10 ^ 12"
      and rec: "invertLoopR n (i + 1) (eliminateR n i A2 A2) (eliminateR n i A2 I2) = Some Inv"
      using "1.prems"(5) True
      by (simp_all add: invertLoopR.simps[of n i A I] Let_def m_def A1_def I1_def p_def A2_def I2_def
          split: if_splits)
    from big have p0: "p \<noteq> 0" by auto
    have wf1: "wfR n A1" "wfR n I1"
      using "1.prems" True m by (simp_all add: A1_def I1_def wfR_swapRows)
    have wf2: "wfR n A2" "wfR n I2"
      using wf1 True by (simp_all add: A2_def I2_def wfR_scaleRowR)
    have wf3: "wfR n (eliminateR n i A2 A2)" "wfR n (eliminateR n i A2 I2)"
      using wf2 by (simp_all add: wfR_eliminateR)
    have u3: "unitCols n (i + 1) (eliminateR n i A2 A2)"
      unfolding A2_def A1_def
      by (rule unitCols_step[OF "1.prems"(1) True "1.prems"(4) m]) (use p0 in \<open>simp_all add: p_def A1_def\<close>)
    have IH: "wfR n Inv \<and> (\<forall>x y. sol n (eliminateR n i A2 A2) (eliminateR n i A2 I2) x y
                 \<longleftrightarrow> (\<forall>r<n. x r = (\<Sum>c<n. Inv ! r ! c * y c)))"
      by (rule "1.IH"[OF True m_def A1_def I1_def p_def big A2_def I2_def wf3 _ u3 rec])
         (use True in simp)
    have "sol n A I x y \<longleftrightarrow> sol n (eliminateR n i A2 A2) (eliminateR n i A2 I2) x y" for x y
      using sol_eliminateR[OF True, of A2 I2 x y]
            sol_scaleRowR[OF wf1 True p0, of x y]
            sol_swapRows[OF "1.prems"(1,2) True m(2), of x y]
      by (simp add: A2_def I2_def A1_def I1_def)
    with IH show ?thesis by simp
  qed
qed

section \<open>The engine's matrix steps on finite entries\<close>

lemma lift_nth: "r < length A \<Longrightarrow> c < length (A ! r) \<Longrightarrow> lift A ! r ! c = Num (A ! r ! c)"
  by (simp add: lift_def)

lemma lift_row: "r < length A \<Longrightarrow> lift A ! r = map Num (A ! r)"
  by (simp add: lift_def)

lemma length_lift: "length (lift A) = length A"
  by (simp add: lift_def)

lemma findMaxRow_fold_lift:
  assumes "wfR n A" "i < n"
  shows "set rs \<subseteq> {..<n} \<Longrightarrow> m0 < n \<Longrightarrow>
     fold (\<lambda>r maxRow. if \<bar>lift A ! maxRow ! i\<bar> < \<bar>lift A ! r ! i\<bar> then r else maxRow) rs m0
   = fold (\<lambda>r maxRow. if \<bar>A ! maxRow ! i\<bar> < \<bar>A ! r ! i\<bar> then r else maxRow) rs m0"
proof (induction rs arbitrary: m0)
  case Nil
  then show ?case by simp
next
  case (Cons r rs)
  then have r: "r < n" by simp
  have e: "lift A ! k ! i = Num (A ! k ! i)" if "k < n" for k
    using that assms by (simp add: lift_nth wfR_def)
  have "(if \<bar>A ! m0 ! i\<bar> < \<bar>A ! r ! i\<bar> then r else m0) < n" using r Cons.prems by simp
  then show ?case
    using Cons r by (simp add: e)
qed

lemma findMaxRow_lift:
  assumes "wfR n A" "i < n"
  shows "findMaxRow (lift A) i n = findMaxRowR A i n"
  unfolding findMaxRow_def findMaxRowR_def
  using assms by (intro findMaxRow_fold_lift) auto

lemma swapRows_lift:
  "i < length A \<Longrightarrow> m < length A \<Longrightarrow> swapRows (lift A) i m = lift (swapRows A i m)"
  by (simp add: swapRows_def lift_def map_update)

lemma scaleRow_lift:
  "i < length A \<Longrightarrow> p \<noteq> 0 \<Longrightarrow> scaleRow (lift A) i (Num p) = lift (scaleRowR A i p)"
  by (simp add: scaleRow_def scaleRowR_def lift_def map_update o_def)

lemma eliminate_lift:
  assumes "wfR n A" "wfR n M" "i < n"
  shows "eliminate n i (lift A) (lift M) = lift (eliminateR n i A M)"
proof -
  have e: "lift B ! r ! c = Num (B ! r ! c)" if "r < n" "c < n" "wfR n B" for r c B
    using that by (simp add: lift_nth wfR_def)
  have la: "length M = n" using assms by (simp add: wfR_def)
  have "(if r = i then lift M ! r
         else map (\<lambda>c. lift M ! r ! c - lift A ! r ! i * lift M ! i ! c) [0..<n])
      = map Num (if r = i then M ! r else map (\<lambda>c. M ! r ! c - A ! r ! i * M ! i ! c) [0..<n])"
    if r: "r < n" for r
  proof (cases "r = i")
    case True
    then show ?thesis using r la by (simp add: lift_row)
  next
    case False
    then show ?thesis using r assms by (simp add: e minus_jsnum_def)
  qed
  then show ?thesis
    by (simp add: eliminate_def eliminateR_def lift_def[of "map _ _"])
qed

lemma invertLoop_lift:
  "wfR n A \<Longrightarrow> wfR n I \<Longrightarrow>
   invertLoop n i (lift A) (lift I) = map_option lift (invertLoopR n i A I)"
proof (induction n i A I rule: invertLoopR.induct)
  case (1 n i A I)
  show ?case
  proof (cases "i < n")
    case False
    then show ?thesis
      by (subst invertLoop.simps, subst invertLoopR.simps) simp
  next
    case True
    define m where "m = findMaxRowR A i n"
    define A1 where "A1 = swapRows A i m"
    define I1 where "I1 = swapRows I i m"
    define p where "p = A1 ! i ! i"
    define A2 where "A2 = scaleRowR A1 i p"
    define I2 where "I2 = scaleRowR I1 i p"
    have m: "i \<le> m" "m < n" using findMaxRowR_range[OF True] by (simp_all add: m_def)
    have la: "length A = n" "length I = n" using "1.prems" by (simp_all add: wfR_def)
    have wf1: "wfR n A1" "wfR n I1"
      using "1.prems" True m by (simp_all add: A1_def I1_def wfR_swapRows)
    then have l1: "length A1 = n" "length I1 = n" "length (A1 ! i) = n"
      using True by (simp_all add: wfR_def)
    have fm: "findMaxRow (lift A) i n = m"
      using "1.prems"(1) True by (simp add: findMaxRow_lift m_def)
    have s1: "swapRows (lift A) i m = lift A1" "swapRows (lift I) i m = lift I1"
      using True m la by (simp_all add: swapRows_lift A1_def I1_def)
    have pv: "lift A1 ! i ! i = Num p"
      using True l1 by (simp add: lift_nth p_def)
    show ?thesis
    proof (cases "\<bar>p\<bar> < 1 / 10 ^ 12")
      case True
      then show ?thesis
        using \<open>i < n\<close>
        by (subst invertLoop.simps, subst invertLoopR.simps)
           (simp add: Let_def fm s1 pv m_def[symmetric] A1_def[symmetric] p_def[symmetric])
    next
      case False
      then have p0: "p \<noteq> 0" by auto
      have wf2: "wfR n A2" "wfR n I2"
        using wf1 True by (simp_all add: A2_def I2_def wfR_scaleRowR)
      have wf3: "wfR n (eliminateR n i A2 A2)" "wfR n (eliminateR n i A2 I2)"
        using wf2 by (simp_all add: wfR_eliminateR)
      have s2: "scaleRow (lift A1) i (Num p) = lift A2" "scaleRow (lift I1) i (Num p) = lift I2"
        using True l1 p0 by (simp_all add: scaleRow_lift A2_def I2_def)
      have s3: "eliminate n i (lift A2) (lift A2) = lift (eliminateR n i A2 A2)"
               "eliminate n i (lift A2) (lift I2) = lift (eliminateR n i A2 I2)"
        using wf2 True by (simp_all add: eliminate_lift)
      have IH: "invertLoop n (i + 1) (lift (eliminateR n i A2 A2)) (lift (eliminateR n i A2 I2))
                = map_option lift (invertLoopR n (i + 1) (eliminateR n i A2 A2) (eliminateR n i A2 I2))"
        by (rule "1.IH"[OF True m_def A1_def I1_def p_def False A2_def I2_def wf3])
      have L: "invertLoop n i (lift A) (lift I)
             = invertLoop n (i + 1) (lift (eliminateR n i A2 A2)) (lift (eliminateR n i A2 I2))"
        using True False
        by (subst invertLoop.simps) (simp add: Let_def fm s1 pv s2 s3)
      have R: "invertLoopR n i A I
             = invertLoopR n (i + 1) (eliminateR n i A2 A2) (eliminateR n i A2 I2)"
        using True False
        by (subst invertLoopR.simps)
           (simp add: Let_def m_def[symmetric] A1_def[symmetric] I1_def[symmetric] p_def[symmetric]
              A2_def[symmetric] I2_def[symmetric])
      show ?thesis using L R IH by simp
    qed
  qed
qed

lemma identityM_lift: "identityM n = lift (identityR n)"
  by (simp add: identityM_def identityR_def lift_def)

lemma wfR_identityR: "wfR n (identityR n)"
  by (simp add: wfR_def identityR_def)

lemma copy_row: "length row = n \<Longrightarrow> map (\<lambda>c. nthN row (int c)) [0..<n] = row"
  by (rule nth_equalityI) (simp_all add: nthN_int)

lemma invertMatrix_lift:
  assumes "wfR n M"
  shows "invertMatrix (lift M) = map_option lift (invertLoopR n 0 M (identityR n))"
proof -
  have l: "length M = n" using assms by (simp add: wfR_def)
  have "map (\<lambda>row. map (\<lambda>c. nthN row (int c)) [0..<n]) (lift M) = lift M"
  proof (rule nth_equalityI)
    show "length (map (\<lambda>row. map (\<lambda>c. nthN row (int c)) [0..<n]) (lift M)) = length (lift M)"
      by simp
  next
    fix r assume "r < length (map (\<lambda>row. map (\<lambda>c. nthN row (int c)) [0..<n]) (lift M))"
    then have r: "r < n" using l by (simp add: length_lift)
    then have "length (lift M ! r) = n" using assms l by (simp add: lift_row wfR_def)
    then show "map (\<lambda>row. map (\<lambda>c. nthN row (int c)) [0..<n]) (lift M) ! r = lift M ! r"
      using r l by (simp add: length_lift copy_row)
  qed
  then show ?thesis
    using assms l
    by (simp add: invertMatrix_def length_lift Let_def identityM_lift invertLoop_lift wfR_identityR)
qed

lemma sol_sym: "sol n A I x y \<longleftrightarrow> sol n I A y x"
  unfolding sol_def by (simp add: eq_commute)

lemma unitCols_identityR: "unitCols n n (identityR n)"
  by (simp add: unitCols_def identityR_def)

lemma invertR_solves:
  assumes "wfR n M" "invertLoopR n 0 M (identityR n) = Some Inv"
  shows "wfR n Inv"
    and "(\<forall>r<n. (\<Sum>c<n. M ! r ! c * x c) = y r) \<longleftrightarrow> (\<forall>r<n. x r = (\<Sum>c<n. Inv ! r ! c * y c))"
proof -
  have u0: "unitCols n 0 M" by (simp add: unitCols_def)
  note c = invertLoopR_correct[OF assms(1) wfR_identityR _ u0 assms(2)]
  show "wfR n Inv" using c by simp
  have e1: "sol n M (identityR n) x y \<longleftrightarrow> (\<forall>r<n. x r = (\<Sum>c<n. Inv ! r ! c * y c))"
    using c by blast
  have "sol n M (identityR n) x y \<longleftrightarrow> sol n (identityR n) M y x"
    by (rule sol_sym)
  also have "\<dots> \<longleftrightarrow> (\<forall>r<n. y r = (\<Sum>c<n. M ! r ! c * x c))"
    by (rule sol_unit[OF unitCols_identityR])
  also have "\<dots> \<longleftrightarrow> (\<forall>r<n. (\<Sum>c<n. M ! r ! c * x c) = y r)"
    by (simp add: eq_commute)
  finally have e2: "sol n M (identityR n) x y \<longleftrightarrow> (\<forall>r<n. (\<Sum>c<n. M ! r ! c * x c) = y r)" .
  show "(\<forall>r<n. (\<Sum>c<n. M ! r ! c * x c) = y r) \<longleftrightarrow> (\<forall>r<n. x r = (\<Sum>c<n. Inv ! r ! c * y c))"
    by (simp only: e2[symmetric] e1)
qed

lemma foldl_sum_Num:
  "(\<And>k. k < m \<Longrightarrow> f k = Num (g k)) \<Longrightarrow>
   foldl (\<lambda>acc k. acc + f k) (Num a) [0..<m] = Num (a + (\<Sum>k<m. g k))"
proof (induction m)
  case 0
  then show ?case by simp
next
  case (Suc m)
  then show ?case by (simp add: lessThan_Suc add.assoc add.commute)
qed

lemma matMul_nonempty:
  "B \<noteq> [] \<Longrightarrow>
   matMul A B =
     Inr (map (\<lambda>row.
            map (\<lambda>j. foldl (\<lambda>acc k. acc + nthN row (int k) * nthN (B ! k) (int j))
                         (Num 0) [0..<length B])
                [0..<length (hd B)])
          A)"
  by (cases B) (simp_all add: matMul_def)

lemma matMul_lift:
  assumes "B \<noteq> []" "shapeR m p B" "shapeR n m A"
  shows "matMul (lift A) (lift B) = Inr (lift (matMulR A B))"
proof -
  have lb: "length B = m" "length (hd B) = p"
    using assms(1,2) by (cases B; auto simp: shapeR_def)+
  have hl: "length (hd (lift B)) = p" "lift B \<noteq> []" "length (lift B) = m"
    using assms(1) lb by (cases B; simp add: lift_def)+
  have ent: "foldl (\<lambda>acc k. acc + nthN (map Num row) (int k) * nthN (lift B ! k) (int j)) (Num 0) [0..<m]
           = Num (\<Sum>k<m. row ! k * B ! k ! j)"
    if "length row = m" "j < p" for row j
  proof -
    have "nthN (map Num row) (int k) * nthN (lift B ! k) (int j) = Num (row ! k * B ! k ! j)"
      if "k < m" for k
      using that \<open>length row = m\<close> \<open>j < p\<close> assms(2) lb
      by (simp add: nthN_int lift_row shapeR_def)
    then show ?thesis
      using foldl_sum_Num[of m "\<lambda>k. nthN (map Num row) (int k) * nthN (lift B ! k) (int j)"
              "\<lambda>k. row ! k * B ! k ! j" 0]
      by simp
  qed
  have rows: "\<And>row. row \<in> set A \<Longrightarrow> length row = m"
    using assms(3) by (auto simp: shapeR_def in_set_conv_nth)
  have "map (\<lambda>row.
            map (\<lambda>j. foldl (\<lambda>acc k. acc + nthN row (int k) * nthN (lift B ! k) (int j))
                         (Num 0) [0..<m])
                [0..<p])
          (lift A) = lift (matMulR A B)"
    unfolding matMulR_def lift_def[of A] lift_def[of "map _ A"] map_map lb
    by (rule map_cong[OF refl]) (simp add: ent rows)
  then show ?thesis
    by (simp add: matMul_nonempty[OF hl(2)] hl)
qed

lemma transposeM_lift:
  assumes "X \<noteq> []" "shapeR n p X"
  shows "transposeM (lift X) = Inr (lift (transposeR X))"
proof -
  have l: "length (hd X) = p" "length X = n"
    using assms by (cases X; auto simp: shapeR_def)+
  have hl: "lift X \<noteq> []" "length (hd (lift X)) = p"
    using assms(1) l by (cases X; simp add: lift_def)+
  have rows: "\<And>row. row \<in> set X \<Longrightarrow> length row = p"
    using assms(2) by (auto simp: shapeR_def in_set_conv_nth)
  have "map (\<lambda>i. map (\<lambda>r. nthN r (int i)) (lift X)) [0..<p] = lift (transposeR X)"
    unfolding transposeR_def lift_def l map_map
    by (rule map_cong[OF refl]) (simp add: nthN_int rows)
  then show ?thesis
    by (simp add: transposeM_Inr[OF hl(1)] hl)
qed

lemma shapeR_transposeR: "X \<noteq> [] \<Longrightarrow> shapeR n p X \<Longrightarrow> shapeR p n (transposeR X)"
  by (cases X) (auto simp: shapeR_def transposeR_def)

lemma shapeR_matMulR: "B \<noteq> [] \<Longrightarrow> shapeR m p B \<Longrightarrow> shapeR n m A \<Longrightarrow> shapeR n p (matMulR A B)"
  by (cases B) (auto simp: shapeR_def matMulR_def)

lemma addRidge_lift:
  assumes "wfR p M"
  shows "addRidge (lift M) (Num l) = lift (addRidgeR M l)"
proof -
  have "(lift M ! i)[i := lift M ! i ! i + Num l] = map Num ((M ! i)[i := M ! i ! i + l])"
    if "i < p" for i
    using that assms by (simp add: lift_row lift_nth wfR_def map_update)
  then show ?thesis
    using assms
    by (simp add: addRidge_def addRidgeR_def length_lift lift_def[of "map _ _"] wfR_def)
qed

lemma wfR_addRidgeR: "wfR p M \<Longrightarrow> wfR p (addRidgeR M l)"
  by (simp add: wfR_def addRidgeR_def)

lemma wfR_shapeR: "wfR n A \<longleftrightarrow> shapeR n n A"
  by (simp add: wfR_def shapeR_def)

lemma linearRidge_lift:
  assumes X: "shapeR n p X" "0 < n" "0 < p" and y: "length y = n"
  shows "linearRidge (lift X) (map Num y) (Num l) = Inr (map_option (map Num) (linearRidgeR X y l))"
proof -
  have ne: "X \<noteq> []" using X by (auto simp: shapeR_def)
  define Xt where "Xt = transposeR X"
  define XtX where "XtX = matMulR Xt X"
  define M where "M = addRidgeR XtX l"
  define Y where "Y = map (\<lambda>v. [v]) y"
  define Xty where "Xty = matMulR Xt Y"
  have sXt: "shapeR p n Xt" using ne X(1) by (simp add: Xt_def shapeR_transposeR)
  have sXtX: "shapeR p p XtX" using ne X(1) sXt by (simp add: XtX_def shapeR_matMulR)
  have "wfR p XtX" using sXtX by (simp add: wfR_shapeR)
  then have wM: "wfR p M" by (simp add: M_def wfR_addRidgeR)
  have lXtX: "length XtX = p" using sXtX by (simp add: shapeR_def)
  have Yne: "Y \<noteq> []" and sY: "shapeR n 1 Y" using y X(2) by (auto simp: Y_def shapeR_def)
  have sXty: "shapeR p 1 Xty" using Yne sY sXt by (simp add: Xty_def shapeR_matMulR)
  have Xtyne: "Xty \<noteq> []" using sXty X(3) by (auto simp: shapeR_def)
  have t1: "transposeM (lift X) = Inr (lift Xt)"
    using ne X(1) by (simp add: Xt_def transposeM_lift)
  have t2: "matMul (lift Xt) (lift X) = Inr (lift XtX)"
    using ne X(1) sXt by (simp add: XtX_def matMul_lift)
  have t3: "addRidge (lift XtX) (Num l) = lift M"
    using \<open>wfR p XtX\<close> by (simp add: M_def addRidge_lift)
  have t4: "invertMatrix (lift M) = map_option lift (invertLoopR p 0 M (identityR p))"
    using wM by (rule invertMatrix_lift)
  have t5: "map (\<lambda>v. [v]) (map Num y) = lift Y" by (simp add: Y_def lift_def)
  have t6: "matMul (lift Xt) (lift Y) = Inr (lift Xty)"
    using Yne sY sXt by (simp add: Xty_def matMul_lift)
  show ?thesis
  proof (cases "invertLoopR p 0 M (identityR p)")
    case None
    then show ?thesis
      by (simp add: linearRidge_def linearRidgeR_def t1 t2 t3 t4 Xt_def[symmetric]
          XtX_def[symmetric] M_def[symmetric] lXtX Let_def)
  next
    case (Some Inv)
    have wI: "wfR p Inv" using invertR_solves(1)[OF wM Some] .
    then have sI: "shapeR p p Inv" by (simp add: wfR_shapeR)
    have t7: "matMul (lift Inv) (lift Xty) = Inr (lift (matMulR Inv Xty))"
      using Xtyne sXty sI by (simp add: matMul_lift)
    have sB: "shapeR p 1 (matMulR Inv Xty)" using Xtyne sXty sI by (simp add: shapeR_matMulR)
    have t8: "map (\<lambda>r. nthN r 0) (lift (matMulR Inv Xty)) = map Num (map (\<lambda>r. r ! 0) (matMulR Inv Xty))"
    proof -
      have "\<And>row. row \<in> set (matMulR Inv Xty) \<Longrightarrow> length row = 1"
        using sB by (auto simp: shapeR_def in_set_conv_nth)
      then have "\<And>row. row \<in> set (matMulR Inv Xty) \<Longrightarrow> nthN (map Num row) 0 = Num (row ! 0)"
        by (simp add: nthN_def nthU_def nullish_def)
      then show ?thesis by (simp add: lift_def)
    qed
    show ?thesis
      using Some
      by (simp add: linearRidge_def linearRidgeR_def t1 t2 t3 t4 t5 t6 t7 t8 Xt_def[symmetric]
          XtX_def[symmetric] M_def[symmetric] Y_def[symmetric] Xty_def[symmetric] lXtX Let_def
          del: map_map)
  qed
qed

section \<open>The ridge solver\<close>

lemma matMulR_nth:
  "i < length A \<Longrightarrow> j < length (hd B) \<Longrightarrow>
   matMulR A B ! i ! j = (\<Sum>k<length B. A ! i ! k * B ! k ! j)"
  by (simp add: matMulR_def)

lemma transposeR_nth:
  "i < length (hd X) \<Longrightarrow> k < length X \<Longrightarrow> transposeR X ! i ! k = X ! k ! i"
  by (simp add: transposeR_def)

lemma addRidgeR_nth:
  "wfR p M \<Longrightarrow> i < p \<Longrightarrow> j < p \<Longrightarrow>
   addRidgeR M l ! i ! j = M ! i ! j + (if i = j then l else 0)"
  by (simp add: addRidgeR_def wfR_def nth_list_update)

lemma invertR_inverse:
  assumes "wfR n M" "invertLoopR n 0 M (identityR n) = Some Inv" "i < n" "j < n"
  shows "(\<Sum>k<n. M ! i ! k * Inv ! k ! j) = (if i = j then 1 else 0)"
    and "(\<Sum>k<n. Inv ! i ! k * M ! k ! j) = (if i = j then 1 else 0)"
proof -
  let ?e = "\<lambda>c. if c = j then 1 else (0::real)"
  have d: "(\<Sum>c<n. f c * ?e c) = f j" for f :: "nat \<Rightarrow> real"
  proof -
    have "(\<Sum>c<n. f c * ?e c) = (\<Sum>c<n. if c = j then f c else 0)"
      by (intro sum.cong) auto
    then show ?thesis using assms(4) by (simp add: sum.delta)
  qed
  have "\<forall>r<n. Inv ! r ! j = (\<Sum>c<n. Inv ! r ! c * ?e c)" by (simp add: d)
  then have "\<forall>r<n. (\<Sum>c<n. M ! r ! c * Inv ! c ! j) = ?e r"
    using invertR_solves(2)[OF assms(1,2), of "\<lambda>c. Inv ! c ! j" ?e] by blast
  then show "(\<Sum>k<n. M ! i ! k * Inv ! k ! j) = (if i = j then 1 else 0)"
    using assms(3) by simp
  have "\<forall>r<n. (\<Sum>c<n. M ! r ! c * ?e c) = M ! r ! j" by (simp add: d)
  then have "\<forall>r<n. ?e r = (\<Sum>c<n. Inv ! r ! c * M ! c ! j)"
    using invertR_solves(2)[OF assms(1,2), of ?e "\<lambda>r. M ! r ! j"] by blast
  then show "(\<Sum>k<n. Inv ! i ! k * M ! k ! j) = (if i = j then 1 else 0)"
    using assms(3) by simp
qed

lemma linearRidgeR_normal:
  assumes X: "shapeR n p X" "0 < n" "0 < p" and y: "length y = n"
    and fit: "linearRidgeR X y l = Some b"
  shows "length b = p"
    and "\<forall>i<p. (\<Sum>j<p. ridgeMatrix X l i j * b ! j) = ridgeRhs X y i"
    and "\<exists>Inv. wfR p Inv
           \<and> (\<forall>i<p. \<forall>j<p. (\<Sum>k<p. ridgeMatrix X l i k * Inv ! k ! j) = (if i = j then 1 else 0))
           \<and> (\<forall>i<p. \<forall>j<p. (\<Sum>k<p. Inv ! i ! k * ridgeMatrix X l k j) = (if i = j then 1 else 0))
           \<and> (\<forall>i<p. b ! i = (\<Sum>j<p. Inv ! i ! j * ridgeRhs X y j))"
proof -
  have ne: "X \<noteq> []" and lX: "length X = n" using X by (auto simp: shapeR_def)
  have hX: "length (hd X) = p" using X ne by (cases X) (auto simp: shapeR_def)
  define Xt where "Xt = transposeR X"
  define XtX where "XtX = matMulR Xt X"
  define M where "M = addRidgeR XtX l"
  define Y where "Y = map (\<lambda>v. [v]) y"
  define Xty where "Xty = matMulR Xt Y"
  have sXt: "shapeR p n Xt" using ne X(1) by (simp add: Xt_def shapeR_transposeR)
  have sXtX: "shapeR p p XtX" using ne X(1) sXt by (simp add: XtX_def shapeR_matMulR)
  have wX: "wfR p XtX" using sXtX by (simp add: wfR_shapeR)
  then have wM: "wfR p M" by (simp add: M_def wfR_addRidgeR)
  have lXtX: "length XtX = p" using sXtX by (simp add: shapeR_def)
  have yne: "y \<noteq> []" using y X(2) by auto
  have Yne: "Y \<noteq> []" and sY: "shapeR n 1 Y" and lY: "length Y = n"
    using y yne by (simp_all add: Y_def shapeR_def)
  have hY: "length (hd Y) = 1" using yne by (cases y) (simp_all add: Y_def)
  have sXty: "shapeR p 1 Xty" using Yne sY sXt by (simp add: Xty_def shapeR_matMulR)
  have Xtyne: "Xty \<noteq> []" and lXty: "length Xty = p" using sXty X(3) by (auto simp: shapeR_def)
  have hXty: "length (hd Xty) = 1" using sXty Xtyne X(3) by (cases Xty) (auto simp: shapeR_def)
  have lXt: "length Xt = p" using sXt by (simp add: shapeR_def)
  obtain Inv where inv: "invertLoopR p 0 M (identityR p) = Some Inv"
    and b: "b = map (\<lambda>r. r ! 0) (matMulR Inv Xty)"
    using fit
    by (auto simp: linearRidgeR_def Let_def Xt_def[symmetric] XtX_def[symmetric] lXtX
          M_def[symmetric] Y_def[symmetric] Xty_def[symmetric] split: option.splits)
  have wI: "wfR p Inv" using invertR_solves(1)[OF wM inv] .
  then have lI: "length Inv = p" by (simp add: wfR_def)
  show lb: "length b = p" using lI by (simp add: b matMulR_def)
  have eM: "M ! i ! j = ridgeMatrix X l i j" if "i < p" "j < p" for i j
  proof -
    have "XtX ! i ! j = (\<Sum>k<n. X ! k ! i * X ! k ! j)"
      unfolding XtX_def using that lXt hX lX
      by (simp add: matMulR_nth) (intro sum.cong, simp_all add: Xt_def transposeR_nth)
    then show ?thesis using that wX by (simp add: M_def addRidgeR_nth ridgeMatrix_def lX)
  qed
  have eR: "Xty ! i ! 0 = ridgeRhs X y i" if "i < p" for i
    unfolding Xty_def ridgeRhs_def using that lXt hY lY lX y
    by (simp add: matMulR_nth) (intro sum.cong, simp_all add: Xt_def transposeR_nth hX Y_def)
  have eb: "b ! i = (\<Sum>j<p. Inv ! i ! j * ridgeRhs X y j)" if "i < p" for i
  proof -
    have "b ! i = (\<Sum>j<p. Inv ! i ! j * Xty ! j ! 0)"
      using that lI hXty lXty by (simp add: b matMulR_nth matMulR_def)
    then show ?thesis using eR by simp
  qed
  have "\<forall>r<p. (\<lambda>r. b ! r) r = (\<Sum>c<p. Inv ! r ! c * (\<lambda>c. ridgeRhs X y c) c)"
    using eb by simp
  then have "\<forall>r<p. (\<Sum>c<p. M ! r ! c * b ! c) = ridgeRhs X y r"
    using invertR_solves(2)[OF wM inv, of "\<lambda>r. b ! r" "\<lambda>c. ridgeRhs X y c"] by blast
  then show "\<forall>i<p. (\<Sum>j<p. ridgeMatrix X l i j * b ! j) = ridgeRhs X y i"
    using eM by simp
  have "\<forall>i<p. \<forall>j<p. (\<Sum>k<p. ridgeMatrix X l i k * Inv ! k ! j) = (if i = j then 1 else 0)"
    using invertR_inverse(1)[OF wM inv] eM by simp
  moreover have "\<forall>i<p. \<forall>j<p. (\<Sum>k<p. Inv ! i ! k * ridgeMatrix X l k j) = (if i = j then 1 else 0)"
    using invertR_inverse(2)[OF wM inv] eM by simp
  ultimately show "\<exists>Inv. wfR p Inv
           \<and> (\<forall>i<p. \<forall>j<p. (\<Sum>k<p. ridgeMatrix X l i k * Inv ! k ! j) = (if i = j then 1 else 0))
           \<and> (\<forall>i<p. \<forall>j<p. (\<Sum>k<p. Inv ! i ! k * ridgeMatrix X l k j) = (if i = j then 1 else 0))
           \<and> (\<forall>i<p. b ! i = (\<Sum>j<p. Inv ! i ! j * ridgeRhs X y j))"
    using wI eb by blast
qed

text \<open>
  The fit on finite entries, read as exact reals: whatever \<^verbatim>\<open>linearRidge\<close> returns
  other than \<^verbatim>\<open>null\<close> solves the ridge normal equations, and the matrix the
  elimination returns is a two-sided inverse. The doubles of the program round, and
  this says nothing about how far their result is from that solution.
\<close>

lemma linearRidge_exact:
  assumes "shapeR n p X" and "0 < n" and "0 < p" and "length y = n"
    and "linearRidge (lift X) (map Num y) (Num lambda) = Inr (Some beta)"
  shows "\<exists>b Inv. beta = map Num b \<and> length b = p
           \<and> (\<forall>i<p. (\<Sum>j<p. ridgeMatrix X lambda i j * b ! j) = ridgeRhs X y i)
           \<and> wfR p Inv
           \<and> (\<forall>i<p. \<forall>j<p. (\<Sum>k<p. ridgeMatrix X lambda i k * Inv ! k ! j) = (if i = j then 1 else 0))
           \<and> (\<forall>i<p. \<forall>j<p. (\<Sum>k<p. Inv ! i ! k * ridgeMatrix X lambda k j) = (if i = j then 1 else 0))
           \<and> (\<forall>i<p. b ! i = (\<Sum>j<p. Inv ! i ! j * ridgeRhs X y j))"
proof -
  have "linearRidge (lift X) (map Num y) (Num lambda)
          = Inr (map_option (map Num) (linearRidgeR X y lambda))"
    using assms(1-4) by (rule linearRidge_lift)
  with assms(5) obtain b where b: "linearRidgeR X y lambda = Some b" and beta: "beta = map Num b"
    by auto
  note n = linearRidgeR_normal[OF assms(1-4) b]
  from n(3) obtain Inv where
    "wfR p Inv
       \<and> (\<forall>i<p. \<forall>j<p. (\<Sum>k<p. ridgeMatrix X lambda i k * Inv ! k ! j) = (if i = j then 1 else 0))
       \<and> (\<forall>i<p. \<forall>j<p. (\<Sum>k<p. Inv ! i ! k * ridgeMatrix X lambda k j) = (if i = j then 1 else 0))
       \<and> (\<forall>i<p. b ! i = (\<Sum>j<p. Inv ! i ! j * ridgeRhs X y j))"
    by blast
  with beta n(1) n(2) show ?thesis by blast
qed

section \<open>A history of zero closes\<close>

lemma upt_0_8: "[0..<8] = [0, 1, 2, 3, 4, 5, 6, 7]"
  by (simp add: upt_rec)

lemma upt_1_30: "[1..<30] = [1, 2, 3, 4, 5, 6, 7, 8, 9, 10, 11, 12, 13, 14, 15, 16, 17, 18, 19, 20,
               21, 22, 23, 24, 25, 26, 27, 28, 29]"
  by (simp add: upt_rec)

lemma upt_20_29: "[20..<29] = [20, 21, 22, 23, 24, 25, 26, 27, 28]"
  by (simp add: upt_rec)

lemma upt_0_9: "[0..<9] = [0, 1, 2, 3, 4, 5, 6, 7, 8]"
  by (simp add: upt_rec)

lemma zero_returns: "pctReturns (map Num zeroReals) = nanReturns"
  by (simp add: zeroReals_def nanReturns_def pctReturns_def upt_1_30 nthN_def nthU_def nullish_def
        pctReturn_def minus_jsnum_def eval_nat_numeral)

lemma zero_row:
  "i \<in> {20, 21, 22, 23, 24, 25, 26, 27, 28} \<Longrightarrow>
     featureRow (map Num zeroReals) nanReturns i = nanRow"
  by (auto simp add: zeroReals_def nanReturns_def nanRow_def featureRow_def Let_def slice_def
        sma_def ema_def stddev_def momentum_def sumN_def nthU_def nthN_def nullish_def orElse_def
        minus_jsnum_def eval_nat_numeral)

lemma zero_cutoffs: "cutoffs (map Num zeroReals) = [20, 21, 22, 23, 24, 25, 26, 27, 28]"
  by (simp add: cutoffs_def zeroReals_def upt_20_29)

lemma zero_features:
  "fullFeatures (map Num zeroReals)
     = [nanRow, nanRow, nanRow, nanRow, nanRow, nanRow, nanRow, nanRow, nanRow]"
  unfolding fullFeatures_def zero_cutoffs zero_returns
  by (simp add: zero_row)

lemma zero_targets:
  "fullTargets (map Num zeroReals) = [NaN, NaN, NaN, NaN, NaN, NaN, NaN, NaN, NaN]"
  unfolding fullTargets_def zero_cutoffs zero_returns
  by (simp add: nanReturns_def nthN_def nthU_def nullish_def eval_nat_numeral)

lemma zero_fit:
  "linearRidge [nanRow, nanRow, nanRow, nanRow, nanRow, nanRow, nanRow, nanRow, nanRow]
      [NaN, NaN, NaN, NaN, NaN, NaN, NaN, NaN, NaN] (Num (1 / 100))
     = Inr (Some [NaN, NaN, NaN, NaN, NaN, NaN, NaN, NaN])"
  apply (simp add: linearRidge_def transposeM_def matMul_def addRidge_def invertMatrix_def
           identityM_def nanRow_def upt_0_8 upt_0_9 nthN_int)
  apply (subst invertLoop.simps,
         simp add: findMaxRow_def swapRows_def scaleRow_def eliminate_def Let_def upt_0_8 upt_rec
           minus_jsnum_def)
  apply (subst invertLoop.simps,
         simp add: findMaxRow_def swapRows_def scaleRow_def eliminate_def Let_def upt_0_8 upt_rec
           minus_jsnum_def)
  apply (subst invertLoop.simps,
         simp add: findMaxRow_def swapRows_def scaleRow_def eliminate_def Let_def upt_0_8 upt_rec
           minus_jsnum_def)
  apply (subst invertLoop.simps,
         simp add: findMaxRow_def swapRows_def scaleRow_def eliminate_def Let_def upt_0_8 upt_rec
           minus_jsnum_def)
  apply (subst invertLoop.simps,
         simp add: findMaxRow_def swapRows_def scaleRow_def eliminate_def Let_def upt_0_8 upt_rec
           minus_jsnum_def)
  apply (subst invertLoop.simps,
         simp add: findMaxRow_def swapRows_def scaleRow_def eliminate_def Let_def upt_0_8 upt_rec
           minus_jsnum_def)
  apply (subst invertLoop.simps,
         simp add: findMaxRow_def swapRows_def scaleRow_def eliminate_def Let_def upt_0_8 upt_rec
           minus_jsnum_def)
  apply (subst invertLoop.simps,
         simp add: findMaxRow_def swapRows_def scaleRow_def eliminate_def Let_def upt_0_8 upt_rec
           minus_jsnum_def)
  apply (subst invertLoop.simps, simp add: matMul_def upt_0_8 nthN_int)
  apply (simp add: nthN_def nthU_def nullish_def)
  done


lemma nan_rSquared:
  "rSquared [nanRow, nanRow, nanRow, nanRow, nanRow, nanRow, nanRow, nanRow, nanRow]
      [NaN, NaN, NaN, NaN, NaN, NaN, NaN, NaN, NaN] beta = NaN"
  by (simp add: rSquared_def sumN_def Let_def upt_0_9 minus_jsnum_def orElse_def)

lemma zero_backtest: "backtestLoop (map Num zeroReals) 30 [] = Inr []"
  by (subst backtestLoop.simps) (simp add: zeroReals_def)

lemma nan_finalConf: "finalConf (Num 0) NaN = NaN"
  by (simp add: finalConf_def jsmax_def jsmin_def)

lemma mul_NaN: "x * NaN = NaN"
  by (cases x) simp_all

lemma add_NaN: "x + NaN = NaN"
  by (cases x) simp_all

lemma nan_dot: "length f = 8 \<Longrightarrow> dot f [NaN, NaN, NaN, NaN, NaN, NaN, NaN, NaN] = NaN"
  by (simp add: dot_def upt_0_8 nthN_int mul_NaN add_NaN)

lemma nan_step:
  "rolloutStep [NaN, NaN, NaN, NaN, NaN, NaN, NaN, NaN] (cl, rt, pr)
     = (cl @ [NaN], rt @ [NaN], pr @ [NaN])"
proof -
  have d: "dot (liveRow cl rt) [NaN, NaN, NaN, NaN, NaN, NaN, NaN, NaN] = NaN"
    by (rule nan_dot) (simp add: liveRow_def)
  have m: "x * (Num 1 + NaN / Num 100) = NaN" for x by (simp add: mul_NaN)
  show ?thesis by (simp add: rolloutStep_def Let_def d mul_NaN)
qed

text \<open>
  Claim C2: on the regression path (30 candles or more, a fit that is not Singular)
  the confidence is \<open>clamp(0.8 * backtestConf + 0.2 * clamp(R\<^sup>2, 0, 1), 0, 1)\<close> and
  therefore always lies in \<open>[0, 1]\<close>. On the history of 30 candles that all close at 0
  the engine is on that path and does otherwise: every percent return is \<open>0 / 0\<close>,
  NaN, \<^verbatim>\<open>r ?? 0\<close> on line 161 lets it into the rows and the targets, no pivot is below
  \<open>10\<^sup>-\<^sup>1\<^sup>2\<close> since no comparison with NaN holds, so the fit returns eight NaN
  coefficients, \<open>R\<^sup>2\<close> is NaN, and \<^verbatim>\<open>Math.max\<close> and \<^verbatim>\<open>Math.min\<close> return NaN on it: the
  confidence, the five projected prices and the next price are all NaN.
\<close>

theorem C2_confidence_nan_on_zero_closes:
  "linearRidge (fullFeatures (map close (candlesOf zeroReals)))
       (fullTargets (map close (candlesOf zeroReals))) (Num (1 / 100))
     = Inr (Some [NaN, NaN, NaN, NaN, NaN, NaN, NaN, NaN])
   \<and> improvedPredict (candlesOf zeroReals)
       = Inr \<lparr>nextPrice = NaN, projectionLine = [NaN, NaN, NaN, NaN, NaN], confidence = NaN\<rparr>"
proof -
  have l: "\<not> length (candlesOf zeroReals) < 30" by (simp add: candlesOf_def zeroReals_def)
  have f: "linearRidge (fullFeatures (map Num zeroReals)) (fullTargets (map Num zeroReals))
             (Num (1 / 100)) = Inr (Some [NaN, NaN, NaN, NaN, NaN, NaN, NaN, NaN])"
    unfolding zero_features zero_targets by (rule zero_fit)
  have r: "rSquared (fullFeatures (map Num zeroReals)) (fullTargets (map Num zeroReals)) beta = NaN"
    for beta
    unfolding zero_features zero_targets by (rule nan_rSquared)
  have p: "rolloutLoop [NaN, NaN, NaN, NaN, NaN, NaN, NaN, NaN] 0
             (map Num zeroReals, pctReturns (map Num zeroReals), [])
           = (map Num zeroReals @ [NaN, NaN, NaN, NaN, NaN],
              pctReturns (map Num zeroReals) @ [NaN, NaN, NaN, NaN, NaN],
              [NaN, NaN, NaN, NaN, NaN])"
    by (simp add: rolloutLoop_funpow funpow5 nan_step)
  have g: "regression (map Num zeroReals) [NaN, NaN, NaN, NaN, NaN, NaN, NaN, NaN]
           = Inr \<lparr>nextPrice = NaN, projectionLine = [NaN, NaN, NaN, NaN, NaN], confidence = NaN\<rparr>"
    by (simp add: regression_def Let_def r zero_backtest p backtestConf_def nan_finalConf
          nthN_def nthU_def nullish_def)
  show ?thesis
    using l by (simp add: improvedPredict_def Let_def close_candlesOf f afterFit_def g)
qed


end
